theory Spec2Isabelle
  imports Complex_Main "HOL-Library.Char_ord" "HOL-Library.List_Lexorder"
begin

section \<open>Values, errors and configuration\<close>

text \<open>
  Attribute values of the graphs are floats or strings. Floats are modelled as reals.
  An attribute dictionary is a map from keys to values: the program only looks keys up,
  copies whole dictionaries (\<^verbatim>\<open>**data\<close>) and merges them (\<^verbatim>\<open>dict.update\<close>), so the
  insertion order of the keys is never observed. The node attributes that the program
  reads are the coordinates \<^verbatim>\<open>lat\<close> and \<^verbatim>\<open>lon\<close>; node data is a map from keys to floats.
\<close>

datatype pyval = PNum real | PStr string

type_synonym attrs = "string \<rightharpoonup> pyval"
type_synonym node = string
type_synonym node_data = "string \<rightharpoonup> real"
type_synonym coord = "real \<times> real"

text \<open>Exceptions that the modelled code and the library calls it makes can raise.\<close>

datatype error = ValueError | NetworkXError | KeyError | IndexError

text \<open>\<^verbatim>\<open>config_integration.py\<close>\<close>

definition MAX_WALKING_DISTANCE_M :: real where
  "MAX_WALKING_DISTANCE_M = 300"

definition WALKING_SPEED :: real where
  "WALKING_SPEED = 14 / 10"

section \<open>The directed graph of networkx\<close>

text \<open>
  \<^verbatim>\<open>nx.DiGraph\<close> keeps a dictionary of nodes and, for every node, a dictionary of its
  successors; both are insertion ordered, and \<^verbatim>\<open>edges(data=True)\<close> lists the successors
  of the nodes in that order. A graph is the list of its nodes in insertion order, each
  with its attributes and its successor dictionary (an association list, also in
  insertion order). There is one attribute dictionary per ordered pair of nodes.
\<close>

type_synonym adjacency = "(node \<times> attrs) list"
type_synonym digraph = "(node \<times> node_data \<times> adjacency) list"

definition has_node :: "digraph \<Rightarrow> node \<Rightarrow> bool" where
  "has_node g n = (n \<in> set (map fst g))"

definition succ_of :: "digraph \<Rightarrow> node \<Rightarrow> adjacency" where
  "succ_of g u = (case map_of g u of Some (nd, adj) \<Rightarrow> adj | None \<Rightarrow> [])"

definition has_edge :: "digraph \<Rightarrow> node \<Rightarrow> node \<Rightarrow> bool" where
  "has_edge g u v = (v \<in> set (map fst (succ_of g u)))"

text \<open>\<^verbatim>\<open>G[u][v]\<close>, when the edge is there.\<close>

definition edge_data :: "digraph \<Rightarrow> node \<Rightarrow> node \<Rightarrow> attrs option" where
  "edge_data g u v = map_of (succ_of g u) v"

definition nodes_data :: "digraph \<Rightarrow> (node \<times> node_data) list" where
  "nodes_data g = map (\<lambda>(n, nd, adj). (n, nd)) g"

definition edges :: "digraph \<Rightarrow> (node \<times> node \<times> attrs) list" where
  "edges g = concat (map (\<lambda>(u, nd, adj). map (\<lambda>(v, d). (u, v, d)) adj) g)"

text \<open>\<^verbatim>\<open>add_node(n, **nd)\<close>: a new node is appended, a known node has its attributes updated.\<close>

definition add_node :: "digraph \<Rightarrow> node \<Rightarrow> node_data \<Rightarrow> digraph" where
  "add_node g n nd =
     (if has_node g n
      then map (\<lambda>(m, md, adj). if m = n then (m, md ++ nd, adj) else (m, md, adj)) g
      else g @ [(n, nd, [])])"

text \<open>
  \<^verbatim>\<open>datadict = adj[u].get(v, {}); datadict.update(attr); adj[u][v] = datadict\<close>:
  an edge that is already there keeps its place and its other attributes.
\<close>

definition adj_update :: "adjacency \<Rightarrow> node \<Rightarrow> attrs \<Rightarrow> adjacency" where
  "adj_update adj v a =
     (if v \<in> set (map fst adj)
      then map (\<lambda>(w, d). if w = v then (w, d ++ a) else (w, d)) adj
      else adj @ [(v, a)])"

definition add_edge :: "digraph \<Rightarrow> node \<Rightarrow> node \<Rightarrow> attrs \<Rightarrow> digraph" where
  "add_edge g u v a =
     (let g1 = (if has_node g u then g else g @ [(u, Map.empty, [])]);
          g2 = (if has_node g1 v then g1 else g1 @ [(v, Map.empty, [])])
      in map (\<lambda>(m, md, adj). if m = u then (m, md, adj_update adj v a) else (m, md, adj)) g2)"

text \<open>\<^verbatim>\<open>remove_edge(u, v)\<close> raises \<^verbatim>\<open>NetworkXError\<close> when there is no such edge.\<close>

definition remove_edge :: "digraph \<Rightarrow> node \<Rightarrow> node \<Rightarrow> error + digraph" where
  "remove_edge g u v =
     (if has_edge g u v
      then Inr (map (\<lambda>(m, md, adj).
                  if m = u then (m, md, filter (\<lambda>(w, d). w \<noteq> v) adj) else (m, md, adj)) g)
      else Inl NetworkXError)"

section \<open>Library calls: numpy, scipy and geopy\<close>

text \<open>
  \<^verbatim>\<open>KDTree(np.array(coords))\<close> raises \<^verbatim>\<open>ValueError\<close> unless the data is a two-dimensional
  array; the array of an empty list of points has one dimension. The tree is the list of
  the points it was built from.
\<close>

definition KDTree :: "coord list \<Rightarrow> error + coord list" where
  "KDTree cs = (if cs = [] then Inl ValueError else Inr cs)"

text \<open>
  \<^verbatim>\<open>tree.query_ball_point(x, r)\<close>: the indices of the points whose Euclidean distance to
  \<open>x\<close>, in the units of the data (degrees), is at most \<open>r\<close>; here in the order of the
  indices. The comparison \<open>sqrt (dx\<^sup>2 + dy\<^sup>2) \<le> r\<close> is written without the root.
\<close>

definition planar_within :: "coord \<Rightarrow> coord \<Rightarrow> real \<Rightarrow> bool" where
  "planar_within p x r =
     (0 \<le> r \<and> (fst p - fst x)\<^sup>2 + (snd p - snd x)\<^sup>2 \<le> r\<^sup>2)"

definition query_ball_point :: "coord list \<Rightarrow> coord \<Rightarrow> real \<Rightarrow> nat list" where
  "query_ball_point tree x r = filter (\<lambda>j. planar_within (tree ! j) x r) [0..<length tree]"

text \<open>\<^verbatim>\<open>np.mean\<close> and \<^verbatim>\<open>np.radians\<close>.\<close>

definition mean :: "real list \<Rightarrow> real" where
  "mean xs = sum_list xs / real (length xs)"

definition radians :: "real \<Rightarrow> real" where
  "radians x = x * pi / 180"

text \<open>
  \<^verbatim>\<open>geopy.distance.geodesic(p, q).meters\<close> is the length of the shortest path between two
  points on the WGS-84 ellipsoid. The connectors below take it as a parameter \<open>geo\<close>. For
  two points on the equator no more than half a turn apart, the geodesic is the arc of
  the equator between them, whose length is the equatorial radius (6378137 m) times the
  difference of the longitudes in radians; \<open>equator_geodesic\<close> is that length, and it
  instantiates \<open>geo\<close> at inputs that lie on the equator.
\<close>

definition equator_geodesic :: "coord \<Rightarrow> coord \<Rightarrow> real" where
  "equator_geodesic p q = 6378137 * radians \<bar>snd p - snd q\<bar>"

section \<open>PT-to-PT walking connector (\<^verbatim>\<open>connections/pt_to_pt.py\<close>)\<close>

record stats =
  edges_added :: nat
  unique_pairs :: nat
  nodes_checked :: nat
  skipped_existing :: nat
  skipped_too_far :: nat

text \<open>The dictionary that \<^verbatim>\<open>add_walking_edges\<close> returns.\<close>

datatype outcome = NoPtNodes | Stats stats

text \<open>
  \<^verbatim>\<open>round(x, 1)\<close>: the nearest multiple of one tenth, a tie going to the even multiple.
\<close>

definition round1 :: "real \<Rightarrow> real" where
  "round1 x =
     (let y = x * 10; f = \<lfloor>y\<rfloor>
      in (if y - of_int f < 1 / 2 then of_int f
          else if 1 / 2 < y - of_int f then of_int f + 1
          else if even f then of_int f else of_int f + 1) / 10)"

definition is_walk_transfer :: "attrs \<Rightarrow> bool" where
  "is_walk_transfer d =
     (d ''mode'' = Some (PStr ''walk'') \<and> d ''edge_type'' = Some (PStr ''pt_transfer''))"

definition walking_attrs :: "real \<Rightarrow> attrs" where
  "walking_attrs distance =
     (let travel_time = distance / WALKING_SPEED
      in [''mode'' \<mapsto> PStr ''walk'',
          ''distance'' \<mapsto> PNum distance,
          ''time'' \<mapsto> PNum travel_time,
          ''emissions'' \<mapsto> PNum 0,
          ''edge_type'' \<mapsto> PStr ''pt_transfer'',
          ''walk_distance_m'' \<mapsto> PNum (round1 distance),
          ''walk_time_min'' \<mapsto> PNum (round1 (travel_time / 60))])"

definition add_walking_edge :: "digraph \<Rightarrow> node \<Rightarrow> node \<Rightarrow> real \<Rightarrow> digraph" where
  "add_walking_edge g source target distance = add_edge g source target (walking_attrs distance)"

definition extract_pt_nodes :: "digraph \<Rightarrow> (node \<times> node_data) list" where
  "extract_pt_nodes g = filter (\<lambda>(n, nd). ''lat'' \<in> dom nd \<and> ''lon'' \<in> dom nd) (nodes_data g)"

text \<open>
  The loop of \<^verbatim>\<open>build_spatial_index\<close>: \<^verbatim>\<open>node_data['lat']\<close> raises \<^verbatim>\<open>KeyError\<close> when the
  key is missing.
\<close>

fun collect_coords :: "(node \<times> node_data) list \<Rightarrow> error + (node list \<times> coord list)" where
  "collect_coords [] = Inr ([], [])"
| "collect_coords ((n, nd) # rest) =
     (case nd ''lat'' of
        None \<Rightarrow> Inl KeyError
      | Some la \<Rightarrow>
          (case nd ''lon'' of
             None \<Rightarrow> Inl KeyError
           | Some lo \<Rightarrow>
               (case collect_coords rest of
                  Inl e \<Rightarrow> Inl e
                | Inr (ids, cs) \<Rightarrow> Inr (n # ids, (la, lo) # cs))))"

definition build_spatial_index :: "(node \<times> node_data) list \<Rightarrow> error + (node list \<times> coord list)" where
  "build_spatial_index pt_nodes =
     (case collect_coords pt_nodes of
        Inl e \<Rightarrow> Inl e
      | Inr (ids, cs) \<Rightarrow> (case KDTree cs of Inl e \<Rightarrow> Inl e | Inr tree \<Rightarrow> Inr (ids, cs)))"

text \<open>\<^verbatim>\<open>tuple(sorted([a, b]))\<close>\<close>

definition sorted_pair :: "node \<Rightarrow> node \<Rightarrow> node \<times> node" where
  "sorted_pair a b = (if b < a then (b, a) else (a, b))"

text \<open>
  The state of the loops of \<^verbatim>\<open>add_connections\<close>: the graph, the counters and the set
  \<^verbatim>\<open>pairs_added\<close> (a list without repetitions).
\<close>

type_synonym conn_state = "digraph \<times> stats \<times> (node \<times> node) list"

text \<open>The body of the inner loop, for the neighbour index \<open>j\<close> of the node at index \<open>i\<close>.\<close>

definition visit_neighbor ::
  "(coord \<Rightarrow> coord \<Rightarrow> real) \<Rightarrow> real \<Rightarrow> node list \<Rightarrow> coord list \<Rightarrow> nat \<Rightarrow> nat \<Rightarrow> conn_state
     \<Rightarrow> error + conn_state" where
  "visit_neighbor geo max_walk_distance node_ids coords i j st =
     (case st of (g, s, pairs_added) \<Rightarrow>
        if i = j then Inr st
        else if length node_ids \<le> j then Inl IndexError
        else
          let node_id = node_ids ! i;
              neighbor_id = node_ids ! j;
              distance = geo (coords ! i) (coords ! j)
          in if max_walk_distance < distance
             then Inr (g, s\<lparr>skipped_too_far := skipped_too_far s + 1\<rparr>, pairs_added)
             else if has_edge g node_id neighbor_id
             then Inr (g, s\<lparr>skipped_existing := skipped_existing s + 1\<rparr>, pairs_added)
             else Inr (add_walking_edge (add_walking_edge g node_id neighbor_id distance)
                         neighbor_id node_id distance,
                       s\<lparr>edges_added := edges_added s + 2\<rparr>,
                       List.insert (sorted_pair node_id neighbor_id) pairs_added))"

fun visit_neighbors ::
  "(coord \<Rightarrow> coord \<Rightarrow> real) \<Rightarrow> real \<Rightarrow> node list \<Rightarrow> coord list \<Rightarrow> nat \<Rightarrow> nat list \<Rightarrow> conn_state
     \<Rightarrow> error + conn_state" where
  "visit_neighbors geo mx node_ids coords i [] st = Inr st"
| "visit_neighbors geo mx node_ids coords i (j # js) st =
     (case visit_neighbor geo mx node_ids coords i j st of
        Inl e \<Rightarrow> Inl e
      | Inr st' \<Rightarrow> visit_neighbors geo mx node_ids coords i js st')"

text \<open>The body of the outer loop, for the index \<open>i\<close> of \<^verbatim>\<open>enumerate(node_ids)\<close>.\<close>

definition visit_node ::
  "(coord \<Rightarrow> coord \<Rightarrow> real) \<Rightarrow> real \<Rightarrow> node list \<Rightarrow> coord list \<Rightarrow> real \<Rightarrow> nat \<Rightarrow> conn_state
     \<Rightarrow> error + conn_state" where
  "visit_node geo mx node_ids coords search_radius_degrees i st =
     (case st of (g, s, pairs_added) \<Rightarrow>
        if length coords \<le> i then Inl IndexError
        else visit_neighbors geo mx node_ids coords i
               (query_ball_point coords (coords ! i) search_radius_degrees)
               (g, s\<lparr>nodes_checked := nodes_checked s + 1\<rparr>, pairs_added))"

fun visit_nodes ::
  "(coord \<Rightarrow> coord \<Rightarrow> real) \<Rightarrow> real \<Rightarrow> node list \<Rightarrow> coord list \<Rightarrow> real \<Rightarrow> nat list \<Rightarrow> conn_state
     \<Rightarrow> error + conn_state" where
  "visit_nodes geo mx node_ids coords r [] st = Inr st"
| "visit_nodes geo mx node_ids coords r (i # is) st =
     (case visit_node geo mx node_ids coords r i st of
        Inl e \<Rightarrow> Inl e
      | Inr st' \<Rightarrow> visit_nodes geo mx node_ids coords r is st')"

text \<open>The radius of the query in degrees, with the latitude-corrected conversion.\<close>

definition pt_search_radius :: "real \<Rightarrow> coord list \<Rightarrow> real" where
  "pt_search_radius max_walk_distance coords =
     (let lat_avg = mean (map fst coords);
          meters_per_degree_lat = 111320;
          meters_per_degree_lon = 111320 * cos (radians lat_avg)
      in max_walk_distance / min meters_per_degree_lat meters_per_degree_lon)"

definition empty_stats :: stats where
  "empty_stats = \<lparr>edges_added = 0, unique_pairs = 0, nodes_checked = 0,
                  skipped_existing = 0, skipped_too_far = 0\<rparr>"

definition add_connections ::
  "(coord \<Rightarrow> coord \<Rightarrow> real) \<Rightarrow> real \<Rightarrow> digraph \<Rightarrow> node list \<Rightarrow> coord list
     \<Rightarrow> error + (stats \<times> digraph)" where
  "add_connections geo max_walk_distance g node_ids coords =
     (case KDTree coords of
        Inl e \<Rightarrow> Inl e
      | Inr tree \<Rightarrow>
          (case visit_nodes geo max_walk_distance node_ids coords
                  (pt_search_radius max_walk_distance coords)
                  [0..<length node_ids] (g, empty_stats, []) of
             Inl e \<Rightarrow> Inl e
           | Inr (g', s, pairs_added) \<Rightarrow> Inr (s\<lparr>unique_pairs := length pairs_added\<rparr>, g')))"

text \<open>The clearing loops at the start of \<^verbatim>\<open>add_walking_edges\<close>.\<close>

definition edges_to_remove :: "digraph \<Rightarrow> (node \<times> node) list" where
  "edges_to_remove g =
     map (\<lambda>(u, v, d). (u, v)) (filter (\<lambda>(u, v, d). is_walk_transfer d) (edges g))"

fun remove_edges :: "digraph \<Rightarrow> (node \<times> node) list \<Rightarrow> error + digraph" where
  "remove_edges g [] = Inr g"
| "remove_edges g ((u, v) # es) =
     (case remove_edge g u v of Inl e \<Rightarrow> Inl e | Inr g' \<Rightarrow> remove_edges g' es)"

text \<open>
  \<^verbatim>\<open>add_walking_edges\<close> mutates \<^verbatim>\<open>self.graph\<close> and returns a dictionary; the model returns
  the dictionary and the graph as it is left. The closing report \<^verbatim>\<open>_analyze_by_mode\<close>
  only reads the graph and logs.
\<close>

definition add_walking_edges ::
  "(coord \<Rightarrow> coord \<Rightarrow> real) \<Rightarrow> real \<Rightarrow> digraph \<Rightarrow> error + (outcome \<times> digraph)" where
  "add_walking_edges geo max_walk_distance g =
     (case remove_edges g (edges_to_remove g) of
        Inl e \<Rightarrow> Inl e
      | Inr g1 \<Rightarrow>
          let pt_nodes = extract_pt_nodes g1
          in if length pt_nodes = 0 then Inr (NoPtNodes, g1)
             else (case build_spatial_index pt_nodes of
                     Inl e \<Rightarrow> Inl e
                   | Inr (node_ids, coords) \<Rightarrow>
                       (case add_connections geo max_walk_distance g1 node_ids coords of
                          Inl e \<Rightarrow> Inl e
                        | Inr (s, g2) \<Rightarrow> Inr (Stats s, g2))))"

section \<open>Car-to-PT connector (\<^verbatim>\<open>connections/car_to_pt.py\<close>)\<close>

text \<open>A station of \<^verbatim>\<open>train_stations.json\<close> and a record of \<^verbatim>\<open>connections.json\<close>.\<close>

record station =
  st_id :: node
  st_name :: string
  st_lat :: real
  st_lon :: real

record connection =
  conn_station_id :: node
  conn_station_name :: string
  conn_station_lat :: real
  conn_station_lon :: real
  conn_road_node :: node
  conn_road_lat :: real
  conn_road_lon :: real
  conn_distance :: real
  conn_walk_time :: real

text \<open>
  The loop of \<^verbatim>\<open>build_spatial_index\<close>: \<^verbatim>\<open>lat = node_data.get('lat')\<close>, and the test
  \<^verbatim>\<open>if lat and lon\<close> holds when both are there and neither is zero.
\<close>

fun index_road_nodes :: "(node \<times> node_data) list \<Rightarrow> node list \<times> coord list" where
  "index_road_nodes [] = ([], [])"
| "index_road_nodes ((node_id, node_data) # rest) =
     (case index_road_nodes rest of (road_nodes, road_coords) \<Rightarrow>
        (case node_data ''lat'' of
           None \<Rightarrow> (road_nodes, road_coords)
         | Some lat \<Rightarrow>
             (case node_data ''lon'' of
                None \<Rightarrow> (road_nodes, road_coords)
              | Some lon \<Rightarrow>
                  if lat \<noteq> 0 \<and> lon \<noteq> 0
                  then (node_id # road_nodes, (lat, lon) # road_coords)
                  else (road_nodes, road_coords))))"

definition car_build_spatial_index :: "digraph \<Rightarrow> error + (node list \<times> coord list)" where
  "car_build_spatial_index G_car =
     (case index_road_nodes (nodes_data G_car) of (road_nodes, road_coords) \<Rightarrow>
        (case KDTree road_coords of
           Inl e \<Rightarrow> Inl e
         | Inr road_tree \<Rightarrow> Inr (road_nodes, road_coords)))"

text \<open>
  The loop over the candidates of one station. \<^verbatim>\<open>closest_road\<close> and \<^verbatim>\<open>min_distance\<close>
  are assigned together: \<open>None\<close> is the initial \<^verbatim>\<open>(None, float('inf'))\<close>, below which
  every distance lies.
\<close>

fun closest_loop ::
  "(coord \<Rightarrow> coord \<Rightarrow> real) \<Rightarrow> real \<Rightarrow> node list \<Rightarrow> coord list \<Rightarrow> coord \<Rightarrow> nat list
     \<Rightarrow> (node \<times> real) option \<Rightarrow> error + (node \<times> real) option" where
  "closest_loop geo max_distance road_nodes road_coords station_coord [] closest = Inr closest"
| "closest_loop geo max_distance road_nodes road_coords station_coord (idx # indices) closest =
     (if length road_nodes \<le> idx then Inl IndexError
      else
        let road_node_id = road_nodes ! idx;
            road_coord = road_coords ! idx;
            dist = geo station_coord road_coord
        in closest_loop geo max_distance road_nodes road_coords station_coord indices
             (if (case closest of None \<Rightarrow> True | Some (closest_road, min_distance) \<Rightarrow>
                    dist < min_distance) \<and> dist \<le> max_distance
              then Some (road_node_id, dist)
              else closest))"

text \<open>
  One station: \<open>Inr None\<close> when it is counted as too far. The test \<^verbatim>\<open>if closest_road\<close>
  fails for the empty identifier too.
\<close>

definition connect_station ::
  "(coord \<Rightarrow> coord \<Rightarrow> real) \<Rightarrow> real \<Rightarrow> digraph \<Rightarrow> node list \<Rightarrow> coord list \<Rightarrow> station
     \<Rightarrow> error + connection option" where
  "connect_station geo max_distance G_car road_nodes road_coords s =
     (let station_coord = (st_lat s, st_lon s);
          search_radius_deg = max_distance / 111320;
          indices = query_ball_point road_coords station_coord search_radius_deg
      in if indices = [] then Inr None
         else
           (case closest_loop geo max_distance road_nodes road_coords station_coord indices None of
              Inl e \<Rightarrow> Inl e
            | Inr None \<Rightarrow> Inr None
            | Inr (Some (closest_road, min_distance)) \<Rightarrow>
                if closest_road = [] then Inr None
                else
                  (case map_of (nodes_data G_car) closest_road of
                     None \<Rightarrow> Inl KeyError
                   | Some nd \<Rightarrow>
                       (case nd ''lat'' of
                          None \<Rightarrow> Inl KeyError
                        | Some rlat \<Rightarrow>
                            (case nd ''lon'' of
                               None \<Rightarrow> Inl KeyError
                             | Some rlon \<Rightarrow>
                                 Inr (Some \<lparr>conn_station_id = st_id s,
                                            conn_station_name = st_name s,
                                            conn_station_lat = st_lat s,
                                            conn_station_lon = st_lon s,
                                            conn_road_node = closest_road,
                                            conn_road_lat = rlat,
                                            conn_road_lon = rlon,
                                            conn_distance = min_distance,
                                            conn_walk_time = min_distance / WALKING_SPEED\<rparr>))))))"

fun connect_stations ::
  "(coord \<Rightarrow> coord \<Rightarrow> real) \<Rightarrow> real \<Rightarrow> digraph \<Rightarrow> node list \<Rightarrow> coord list \<Rightarrow> station list
     \<Rightarrow> connection list \<Rightarrow> error + connection list" where
  "connect_stations geo max_distance G_car road_nodes road_coords [] connections = Inr connections"
| "connect_stations geo max_distance G_car road_nodes road_coords (s # rest) connections =
     (case connect_station geo max_distance G_car road_nodes road_coords s of
        Inl e \<Rightarrow> Inl e
      | Inr None \<Rightarrow> connect_stations geo max_distance G_car road_nodes road_coords rest connections
      | Inr (Some c) \<Rightarrow>
          connect_stations geo max_distance G_car road_nodes road_coords rest (connections @ [c]))"

text \<open>\<^verbatim>\<open>find_connections\<close> raises \<^verbatim>\<open>ValueError\<close> when no station was connected.\<close>

definition find_connections ::
  "(coord \<Rightarrow> coord \<Rightarrow> real) \<Rightarrow> real \<Rightarrow> digraph \<Rightarrow> node list \<Rightarrow> coord list \<Rightarrow> station list
     \<Rightarrow> error + connection list" where
  "find_connections geo max_distance G_car road_nodes road_coords train_stations =
     (case connect_stations geo max_distance G_car road_nodes road_coords train_stations [] of
        Inl e \<Rightarrow> Inl e
      | Inr connections \<Rightarrow>
          if length connections = 0 then Inl ValueError else Inr connections)"

text \<open>The steps of \<^verbatim>\<open>main\<close> between loading the inputs and writing the report.\<close>

definition car_to_pt ::
  "(coord \<Rightarrow> coord \<Rightarrow> real) \<Rightarrow> real \<Rightarrow> digraph \<Rightarrow> station list \<Rightarrow> error + connection list" where
  "car_to_pt geo max_distance G_car train_stations =
     (case car_build_spatial_index G_car of
        Inl e \<Rightarrow> Inl e
      | Inr (road_nodes, road_coords) \<Rightarrow>
          find_connections geo max_distance G_car road_nodes road_coords train_stations)"

section \<open>Graph merge (\<^verbatim>\<open>graph_integration/merge_graphs.py\<close>)\<close>

definition add_nodes_from :: "digraph \<Rightarrow> (node \<times> node_data) list \<Rightarrow> digraph" where
  "add_nodes_from g ns = fold (\<lambda>(n, nd) h. add_node h n nd) ns g"

definition add_edges_from :: "digraph \<Rightarrow> (node \<times> node \<times> attrs) list \<Rightarrow> digraph" where
  "add_edges_from g es = fold (\<lambda>(u, v, d) h. add_edge h u v d) es g"

text \<open>The first backfill loop, over the edges of the PT graph.\<close>

definition backfill_walking_step :: "node \<times> node \<times> attrs \<Rightarrow> digraph \<Rightarrow> digraph" where
  "backfill_walking_step e G_combined =
     (case e of (u, v, data) \<Rightarrow>
        if data ''mode'' = Some (PStr ''walk'') \<and> data ''edge_type'' = Some (PStr ''pt_transfer'')
           \<and> \<not> has_edge G_combined v u
        then add_edge G_combined v u data
        else G_combined)"

definition backfill_walking :: "digraph \<Rightarrow> (node \<times> node \<times> attrs) list \<Rightarrow> digraph" where
  "backfill_walking G_combined es = fold backfill_walking_step es G_combined"

text \<open>
  The second backfill loop runs over the edges of the combined graph while it adds edges
  to it. The view lists the nodes in order and, for each, its successors as they are when
  the listing reaches the node; an edge added from \<open>v\<close> to \<open>u\<close> changes the successors of
  \<open>v\<close> only, and the loop adds none from a node to itself.
\<close>

definition backfill_transport_step :: "node \<Rightarrow> node \<times> attrs \<Rightarrow> digraph \<Rightarrow> digraph" where
  "backfill_transport_step u e G_combined =
     (case e of (v, data) \<Rightarrow>
        if data ''mode'' \<in> {Some (PStr ''tram''), Some (PStr ''bus''), Some (PStr ''train'')}
        then (if \<not> has_edge G_combined v u then add_edge G_combined v u data else G_combined)
        else G_combined)"

definition backfill_transport_node :: "node \<Rightarrow> digraph \<Rightarrow> digraph" where
  "backfill_transport_node u G_combined =
     fold (backfill_transport_step u) (succ_of G_combined u) G_combined"

definition backfill_transport :: "digraph \<Rightarrow> digraph" where
  "backfill_transport G_combined = fold backfill_transport_node (map fst G_combined) G_combined"

definition connection_attrs :: "connection \<Rightarrow> attrs" where
  "connection_attrs conn =
     [''mode'' \<mapsto> PStr ''walk'',
      ''distance'' \<mapsto> PNum (conn_distance conn),
      ''time'' \<mapsto> PNum (conn_walk_time conn),
      ''emissions'' \<mapsto> PNum 0,
      ''edge_type'' \<mapsto> PStr ''car_to_pt_transfer'',
      ''station_name'' \<mapsto> PStr (conn_station_name conn)]"

definition add_connection_edges :: "digraph \<Rightarrow> connection list \<Rightarrow> digraph" where
  "add_connection_edges G_combined connections =
     fold (\<lambda>conn h. add_edge h (conn_road_node conn) (conn_station_id conn) (connection_attrs conn))
       connections G_combined"

definition create_combined_graph :: "digraph \<Rightarrow> digraph \<Rightarrow> connection list \<Rightarrow> digraph" where
  "create_combined_graph G_pt G_car connections =
     (let G0 = [];
          G1 = add_edges_from (add_nodes_from G0 (nodes_data G_pt)) (edges G_pt);
          G2 = backfill_walking G1 (edges G_pt);
          G3 = backfill_transport G2;
          G4 = add_edges_from (add_nodes_from G3 (nodes_data G_car)) (edges G_car)
      in add_connection_edges G4 connections)"

section \<open>Well-formed graphs\<close>

text \<open>
  The keys of a dictionary are distinct: a graph lists every node once, and every node
  lists every successor once.
\<close>

definition wf_graph :: "digraph \<Rightarrow> bool" where
  "wf_graph g = (distinct (map fst g) \<and> (\<forall>(n, nd, adj) \<in> set g. distinct (map fst adj)))"

section \<open>Inputs for the concrete runs\<close>

definition unlocated_graph :: digraph where
  "unlocated_graph =
     [(''A'', Map.empty,
         [(''B'', [''mode'' \<mapsto> PStr ''walk'', ''edge_type'' \<mapsto> PStr ''pt_transfer''])]),
      (''B'', Map.empty, [])]"

definition uncharted_car_graph :: digraph where
  "uncharted_car_graph = [(''road_1'', Map.empty, [])]"

text \<open>
  Two stops on the equator, about 11 m apart. The only edge is a train edge from B to A.
\<close>

definition one_way_train_graph :: digraph where
  "one_way_train_graph =
     [(''A'', [''lat'' \<mapsto> 0, ''lon'' \<mapsto> 0], []),
      (''B'', [''lat'' \<mapsto> 0, ''lon'' \<mapsto> 1 / 10000],
         [(''A'', [''mode'' \<mapsto> PStr ''train'', ''route_type'' \<mapsto> PNum 1])])]"

definition one_way_run :: "error + (outcome \<times> digraph)" where
  "one_way_run = add_walking_edges equator_geodesic MAX_WALKING_DISTANCE_M one_way_train_graph"

definition one_way_rerun :: "error + (outcome \<times> digraph)" where
  "one_way_rerun =
     add_walking_edges equator_geodesic MAX_WALKING_DISTANCE_M (snd (projr one_way_run))"

text \<open>
  Two stops on the equator whose longitudes differ by 0.00269494 degrees: a little under
  300 m of geodesic distance, a little over 300 / 111320 degrees.
\<close>

definition near_miss_graph :: digraph where
  "near_miss_graph =
     [(''P'', [''lat'' \<mapsto> 0, ''lon'' \<mapsto> 0], []),
      (''Q'', [''lat'' \<mapsto> 0, ''lon'' \<mapsto> 269494 / 100000000], [])]"

definition near_miss_coords :: "coord list" where
  "near_miss_coords = [(0, 0), (0, 269494 / 100000000)]"

text \<open>The scenario of the specification: two road nodes and a station on the equator.\<close>

definition scenario_car_graph :: digraph where
  "scenario_car_graph =
     [(''R1'', [''lat'' \<mapsto> 0, ''lon'' \<mapsto> 0], []),
      (''R2'', [''lat'' \<mapsto> 0, ''lon'' \<mapsto> 1 / 100], [])]"

definition scenario_stations :: "station list" where
  "scenario_stations = [\<lparr>st_id = ''S1'', st_name = ''S1'', st_lat = 0, st_lon = 5 / 10000\<rparr>]"

text \<open>
  A road node that already has an edge to a station, and a connection record for the
  same pair.
\<close>

definition overlap_pt_graph :: digraph where
  "overlap_pt_graph = [(''S1'', [''lat'' \<mapsto> 1, ''lon'' \<mapsto> 1], [])]"

definition overlap_car_graph :: digraph where
  "overlap_car_graph =
     [(''road_1'', [''lat'' \<mapsto> 1, ''lon'' \<mapsto> 10001 / 10000],
         [(''S1'', [''mode'' \<mapsto> PStr ''car'', ''distance'' \<mapsto> PNum 40])])]"

definition overlap_connections :: "connection list" where
  "overlap_connections =
     [\<lparr>conn_station_id = ''S1'', conn_station_name = ''Central'',
       conn_station_lat = 1, conn_station_lon = 1,
       conn_road_node = ''road_1'', conn_road_lat = 1, conn_road_lon = 10001 / 10000,
       conn_distance = 14, conn_walk_time = 10\<rparr>]"

section \<open>Properties of walking edges\<close>

text \<open>
  Two walking edges match when they carry the same distance, the time that distance
  takes at the walking speed, and no emissions. A graph is paired when every edge tagged
  \<^verbatim>\<open>mode=walk, edge_type=pt_transfer\<close> has a matching reverse edge with the same tags.
\<close>

definition matched_walk :: "attrs \<Rightarrow> attrs \<Rightarrow> bool" where
  "matched_walk d d' =
     (\<exists>x. d ''distance'' = Some (PNum x) \<and> d' ''distance'' = Some (PNum x) \<and>
          d ''time'' = Some (PNum (x / WALKING_SPEED)) \<and>
          d' ''time'' = Some (PNum (x / WALKING_SPEED)) \<and>
          d ''emissions'' = Some (PNum 0) \<and> d' ''emissions'' = Some (PNum 0))"

definition walking_paired :: "digraph \<Rightarrow> bool" where
  "walking_paired g =
     (\<forall>u v d. edge_data g u v = Some d \<and> is_walk_transfer d \<longrightarrow>
        (\<exists>d'. edge_data g v u = Some d' \<and> is_walk_transfer d' \<and> matched_walk d d'))"

section \<open>Facts about the graph operations\<close>

lemma has_node_map_of: "has_node g n \<longleftrightarrow> map_of g n \<noteq> None"
  by (simp add: has_node_def map_of_eq_None_iff)

lemma has_edge_edge_data: "has_edge g u v \<longleftrightarrow> edge_data g u v \<noteq> None"
  by (simp add: has_edge_def edge_data_def map_of_eq_None_iff)

lemma map_of_map_entry:
  "map_of (map (\<lambda>(m, md, adj). if m = u then (m, md, f adj) else (m, md, adj)) g) x =
     (case map_of g x of
        None \<Rightarrow> None
      | Some (md, adj) \<Rightarrow> Some (md, if x = u then f adj else adj))"
  by (induction g) auto

lemma succ_of_map_entry:
  "succ_of (map (\<lambda>(m, md, adj). if m = u then (m, md, f adj) else (m, md, adj)) g) x =
     (if x = u \<and> has_node g u then f (succ_of g x) else succ_of g x)"
  by (auto simp: succ_of_def map_of_map_entry has_node_map_of split: option.splits)

lemma succ_of_append_new: "\<not> has_node g n \<Longrightarrow> succ_of (g @ [(n, nd, [])]) x = succ_of g x"
  by (auto simp: succ_of_def has_node_map_of map_add_def split: option.splits)

lemma has_node_append: "has_node (g @ [(n, nd, adj)]) m \<longleftrightarrow> has_node g m \<or> m = n"
  by (auto simp: has_node_def)

lemma succ_of_add_edge:
  "succ_of (add_edge g u v a) x = (if x = u then adj_update (succ_of g u) v a else succ_of g x)"
  by (auto simp: add_edge_def Let_def succ_of_map_entry succ_of_append_new has_node_append)

lemma map_of_adj_update:
  "map_of (adj_update adj v a) y =
     (if y = v then Some ((case map_of adj v of None \<Rightarrow> Map.empty | Some d \<Rightarrow> d) ++ a)
      else map_of adj y)"
proof (cases "v \<in> set (map fst adj)")
  case True
  have "map_of (map (\<lambda>(w, d). if w = v then (w, d ++ a) else (w, d)) adj) y =
          (case map_of adj y of None \<Rightarrow> None | Some d \<Rightarrow> Some (if y = v then d ++ a else d))"
    by (induction adj) auto
  moreover from True obtain d where "map_of adj v = Some d"
    by (metis map_of_eq_None_iff not_Some_eq set_map)
  ultimately show ?thesis using True by (auto simp: adj_update_def split: option.splits)
next
  case False
  then have "map_of adj v = None" by (simp add: map_of_eq_None_iff)
  with False show ?thesis by (auto simp: adj_update_def map_add_def split: option.splits)
qed

lemma edge_data_add_edge:
  "edge_data (add_edge g u v a) x y =
     (if x = u \<and> y = v
      then Some ((case edge_data g u v of None \<Rightarrow> Map.empty | Some d \<Rightarrow> d) ++ a)
      else edge_data g x y)"
  by (simp add: edge_data_def succ_of_add_edge map_of_adj_update)

lemma has_edge_add_edge: "has_edge (add_edge g u v a) x y \<longleftrightarrow> has_edge g x y \<or> (x = u \<and> y = v)"
  by (auto simp: has_edge_edge_data edge_data_add_edge)

lemma nodes_add_edge:
  "map fst (add_edge g u v a) =
     map fst g @ (if has_node g u then [] else [u]) @ (if has_node g v \<or> v = u then [] else [v])"
proof -
  have m: "\<And>h. map fst (map (\<lambda>(m, md, adj). if m = u then (m, md, adj_update adj v a) else (m, md, adj)) h) = map fst h"
    by (induct_tac h) auto
  show ?thesis by (auto simp: add_edge_def Let_def m has_node_append)
qed

lemma fst_entry_comp:
  "fst \<circ> (\<lambda>(m, md, adj). if m = u then (m, h md, f adj) else (m, md, adj)) = fst"
  by (auto simp: fun_eq_iff)

lemma fst_adj_comp: "fst \<circ> (\<lambda>(w, d). if w = v then (w, h d) else (w, d)) = fst"
  by (auto simp: fun_eq_iff)

lemma distinct_adj_update: "distinct (map fst adj) \<Longrightarrow> distinct (map fst (adj_update adj v a))"
  by (auto simp: adj_update_def fst_adj_comp)

lemma wf_graph_append: "wf_graph g \<Longrightarrow> \<not> has_node g n \<Longrightarrow> wf_graph (g @ [(n, nd, [])])"
  by (auto simp: wf_graph_def has_node_def)

lemma wf_graph_map_entry:
  assumes "wf_graph g" and "\<And>adj. distinct (map fst adj) \<Longrightarrow> distinct (map fst (f adj))"
  shows "wf_graph (map (\<lambda>(m, md, adj). if m = u then (m, h md, f adj) else (m, md, adj)) g)"
  unfolding wf_graph_def
proof (intro conjI ballI)
  show "distinct (map fst (map (\<lambda>(m, md, adj). if m = u then (m, h md, f adj) else (m, md, adj)) g))"
    using assms(1) by (simp add: fst_entry_comp wf_graph_def)
next
  fix e assume "e \<in> set (map (\<lambda>(m, md, adj). if m = u then (m, h md, f adj) else (m, md, adj)) g)"
  then obtain m md adj where o: "(m, md, adj) \<in> set g"
    and e: "e = (if m = u then (m, h md, f adj) else (m, md, adj))" by auto
  from o assms(1) have "distinct (map fst adj)" unfolding wf_graph_def by blast
  with assms(2) e show "case e of (n, nd, adj) \<Rightarrow> distinct (map fst adj)" by simp
qed

lemma wf_graph_add_edge: "wf_graph g \<Longrightarrow> wf_graph (add_edge g u v a)"
proof -
  assume wf: "wf_graph g"
  define g1 where "g1 = (if has_node g u then g else g @ [(u, Map.empty, [])])"
  define g2 where "g2 = (if has_node g1 v then g1 else g1 @ [(v, Map.empty, [])])"
  have 1: "wf_graph g1" unfolding g1_def using wf by (simp add: wf_graph_append)
  then have 2: "wf_graph g2" unfolding g2_def by (simp add: wf_graph_append)
  have "add_edge g u v a =
          map (\<lambda>(m, md, adj). if m = u then (m, md, adj_update adj v a) else (m, md, adj)) g2"
    by (simp add: add_edge_def g1_def g2_def)
  then show ?thesis
    using wf_graph_map_entry[OF 2, of "\<lambda>adj. adj_update adj v a" u "\<lambda>x. x"]
    by (simp add: distinct_adj_update)
qed

lemma wf_graph_add_node: "wf_graph g \<Longrightarrow> wf_graph (add_node g n nd)"
  unfolding add_node_def
  using wf_graph_map_entry[of g "\<lambda>adj. adj" n "\<lambda>x. x ++ nd"] wf_graph_append[of g n nd]
  by simp

lemma wf_graph_Nil: "wf_graph []"
  by (simp add: wf_graph_def)

section \<open>Clearing the walking edges\<close>

lemma edges_Cons: "edges ((n, nd, adj) # g) = map (\<lambda>(v, d). (n, v, d)) adj @ edges g"
  by (simp add: edges_def)

lemma edges_mem:
  "(u, v, d) \<in> set (edges g) \<longleftrightarrow> (\<exists>nd adj. (u, nd, adj) \<in> set g \<and> (v, d) \<in> set adj)"
proof (induction g)
  case Nil
  then show ?case by (simp add: edges_def)
next
  case (Cons e g)
  obtain n nd adj where e: "e = (n, nd, adj)" by (cases e)
  show ?case unfolding e edges_Cons using Cons.IH by auto
qed

lemma succ_of_wf: "distinct (map fst g) \<Longrightarrow> (u, nd, adj) \<in> set g \<Longrightarrow> succ_of g u = adj"
  by (simp add: succ_of_def)

lemma succ_of_mem: "(v, d) \<in> set (succ_of g u) \<Longrightarrow> \<exists>nd. (u, nd, succ_of g u) \<in> set g"
  by (auto simp: succ_of_def split: option.splits dest: map_of_SomeD)

lemma wf_succ_distinct: "wf_graph g \<Longrightarrow> distinct (map fst (succ_of g u))"
proof (cases "map_of g u")
  case None
  then show ?thesis by (simp add: succ_of_def)
next
  case (Some p)
  assume wf: "wf_graph g"
  obtain nd adj where p: "p = (nd, adj)" by (cases p)
  from Some p have "(u, nd, adj) \<in> set g" by (simp add: map_of_SomeD)
  with wf have "distinct (map fst adj)" unfolding wf_graph_def by blast
  with Some p show ?thesis by (simp add: succ_of_def)
qed

lemma wf_edge_data: "wf_graph g \<Longrightarrow> (u, v, d) \<in> set (edges g) \<longleftrightarrow> edge_data g u v = Some d"
proof
  assume wf: "wf_graph g" and m: "(u, v, d) \<in> set (edges g)"
  from m obtain nd adj where a: "(u, nd, adj) \<in> set g" "(v, d) \<in> set adj"
    unfolding edges_mem by blast
  from wf a(1) have s: "succ_of g u = adj" by (simp add: succ_of_wf wf_graph_def)
  from wf_succ_distinct[OF wf, of u] s a(2) show "edge_data g u v = Some d"
    unfolding edge_data_def by simp
next
  assume "edge_data g u v = Some d"
  then have m: "(v, d) \<in> set (succ_of g u)" unfolding edge_data_def by (rule map_of_SomeD)
  from succ_of_mem[OF m] m show "(u, v, d) \<in> set (edges g)" unfolding edges_mem by blast
qed

lemma edge_data_in_edges: "edge_data g u v = Some d \<Longrightarrow> (u, v, d) \<in> set (edges g)"
proof -
  assume "edge_data g u v = Some d"
  then have m: "(v, d) \<in> set (succ_of g u)" unfolding edge_data_def by (rule map_of_SomeD)
  from succ_of_mem[OF m] m show ?thesis unfolding edges_mem by blast
qed

lemma wf_has_edge: "wf_graph g \<Longrightarrow> (u, v, d) \<in> set (edges g) \<Longrightarrow> has_edge g u v"
  by (simp add: wf_edge_data has_edge_edge_data)

lemma edge_pairs_fst:
  "(u, v) \<in> set (map (\<lambda>(u, v, d). (u, v)) (edges g)) \<Longrightarrow> u \<in> fst ` set g"
  by (force simp: edges_mem)

lemma distinct_edge_pairs:
  "wf_graph g \<Longrightarrow> distinct (map (\<lambda>(u, v, d). (u, v)) (edges g))"
proof (induction g)
  case Nil then show ?case by (simp add: edges_def)
next
  case (Cons e g)
  obtain n nd adj where e: "e = (n, nd, adj)" by (cases e)
  from Cons.prems e have wf: "wf_graph g" and dn: "n \<notin> fst ` set g" and da: "distinct (map fst adj)"
    by (auto simp: wf_graph_def)
  have m: "map (\<lambda>(u, v, d). (u, v)) (map (\<lambda>(v, d). (n, v, d)) adj) = map (Pair n) (map fst adj)"
    by (induction adj) auto
  have 1: "distinct (map (Pair n) (map fst adj))"
    using da by (simp add: distinct_map inj_on_def)
  have 2: "set (map (Pair n) (map fst adj)) \<inter> set (map (\<lambda>(u, v, d). (u, v)) (edges g)) = {}"
  proof -
    have "\<And>p. p \<in> set (map (\<lambda>(u, v, d). (u, v)) (edges g)) \<Longrightarrow> fst p \<noteq> n"
      using edge_pairs_fst[of _ _ g] dn by (metis prod.collapse)
    then show ?thesis by fastforce
  qed
  show ?case unfolding e edges_Cons map_append m using 1 2 Cons.IH[OF wf] by simp
qed

lemma succ_of_no_node: "\<not> has_node g u \<Longrightarrow> succ_of g u = []"
  by (cases "map_of g u") (auto simp: succ_of_def has_node_map_of)

lemma has_edge_remove_edge:
  "remove_edge g u v = Inr g' \<Longrightarrow> has_edge g' a b = (has_edge g a b \<and> (a, b) \<noteq> (u, v))"
  by (cases "has_node g u")
     (auto simp: remove_edge_def has_edge_def succ_of_map_entry succ_of_no_node split: if_splits)

lemma remove_edge_filter:
  assumes "remove_edge g u v = Inr g'"
  shows "map (\<lambda>(m, md, adj). (m, md, filter (\<lambda>(w, d). (m, w) \<notin> set es) adj)) g' =
         map (\<lambda>(m, md, adj). (m, md, filter (\<lambda>(w, d). (m, w) \<notin> set ((u, v) # es)) adj)) g"
  using assms by (auto simp: remove_edge_def split: if_splits intro!: filter_cong)

lemma remove_edges_filter:
  "distinct es \<Longrightarrow> \<forall>(u, v) \<in> set es. has_edge g u v \<Longrightarrow>
   remove_edges g es =
     Inr (map (\<lambda>(m, md, adj). (m, md, filter (\<lambda>(w, d). (m, w) \<notin> set es) adj)) g)"
proof (induction es arbitrary: g)
  case Nil
  have "map (\<lambda>(m, md, adj). (m, md, adj)) g = g" by (induction g) auto
  then show ?case by simp
next
  case (Cons e es)
  obtain u v where e: "e = (u, v)" by (cases e)
  from Cons.prems e have he: "has_edge g u v" by simp
  then obtain g' where g': "remove_edge g u v = Inr g'" by (simp add: remove_edge_def)
  have "\<forall>(a, b) \<in> set es. has_edge g' a b"
    using Cons.prems e by (auto simp: has_edge_remove_edge[OF g'])
  with Cons.IH[of g'] Cons.prems
  have "remove_edges g' es =
          Inr (map (\<lambda>(m, md, adj). (m, md, filter (\<lambda>(w, d). (m, w) \<notin> set es) adj)) g')"
    by simp
  then show ?case using g' e by (simp add: remove_edge_filter[OF g'])
qed

lemma edges_to_remove_mem:
  "(u, v) \<in> set (edges_to_remove g) \<longleftrightarrow> (\<exists>d. (u, v, d) \<in> set (edges g) \<and> is_walk_transfer d)"
  by (force simp: edges_to_remove_def)

lemma distinct_edges_to_remove: "wf_graph g \<Longrightarrow> distinct (edges_to_remove g)"
proof -
  assume wf: "wf_graph g"
  have "edges_to_remove g =
          filter (\<lambda>(u, v). \<exists>d. (u, v, d) \<in> set (edges g) \<and> is_walk_transfer d)
            (map (\<lambda>(u, v, d). (u, v)) (edges g))"
    unfolding edges_to_remove_def filter_map comp_def
  proof (rule arg_cong[where f = "map (\<lambda>(u, v, d). (u, v))"], rule filter_cong[OF refl])
    fix x assume x: "x \<in> set (edges g)"
    obtain u v d where xe: "x = (u, v, d)" by (cases x)
    have "is_walk_transfer d \<longleftrightarrow> (\<exists>d'. (u, v, d') \<in> set (edges g) \<and> is_walk_transfer d')"
      using x xe wf_edge_data[OF wf] by auto
    then show "(case x of (u, v, d) \<Rightarrow> is_walk_transfer d) =
               (case case x of (u, v, d) \<Rightarrow> (u, v) of
                  (u, v) \<Rightarrow> \<exists>d. (u, v, d) \<in> set (edges g) \<and> is_walk_transfer d)"
      using xe by simp
  qed
  then show ?thesis using distinct_edge_pairs[OF wf] by simp
qed

lemma fst_filter_comp: "fst \<circ> (\<lambda>(m, md, adj). (m, md, filter (Q m) adj)) = fst"
  by (auto simp: fun_eq_iff)

lemma wf_graph_filter:
  assumes "wf_graph g"
  shows "wf_graph (map (\<lambda>(m, md, adj). (m, md, filter (Q m) adj)) g)"
  unfolding wf_graph_def
proof (intro conjI ballI)
  show "distinct (map fst (map (\<lambda>(m, md, adj). (m, md, filter (Q m) adj)) g))"
    using assms by (simp add: wf_graph_def fst_filter_comp)
next
  fix e assume "e \<in> set (map (\<lambda>(m, md, adj). (m, md, filter (Q m) adj)) g)"
  then obtain m md adj where o: "(m, md, adj) \<in> set g" and e: "e = (m, md, filter (Q m) adj)"
    by auto
  from o assms have "distinct (map fst adj)" unfolding wf_graph_def by blast
  then show "case e of (n, nd, adj) \<Rightarrow> distinct (map fst adj)"
    unfolding e by (simp add: distinct_map_filter)
qed

lemma clear_walking:
  assumes "wf_graph g"
  shows "\<exists>g'. remove_edges g (edges_to_remove g) = Inr g' \<and> nodes_data g' = nodes_data g \<and>
           edges g' = filter (\<lambda>(u, v, d). \<not> is_walk_transfer d) (edges g) \<and> wf_graph g'"
proof -
  let ?es = "edges_to_remove g"
  let ?g' = "map (\<lambda>(m, md, adj). (m, md, filter (\<lambda>(w, d). (m, w) \<notin> set ?es) adj)) g"
  have h: "\<forall>(u, v) \<in> set ?es. has_edge g u v"
    using wf_has_edge[OF assms] by (auto simp: edges_to_remove_mem)
  have r: "remove_edges g ?es = Inr ?g'"
    by (rule remove_edges_filter[OF distinct_edges_to_remove[OF assms] h])
  have n: "nodes_data ?g' = nodes_data g"
    by (simp add: nodes_data_def comp_def case_prod_unfold)
  have k: "(m, w) \<notin> set ?es \<longleftrightarrow> \<not> is_walk_transfer d"
    if "(m, md, adj) \<in> set g" "(w, d) \<in> set adj" for m md adj w d
  proof -
    from that have e: "(m, w, d) \<in> set (edges g)" unfolding edges_mem by blast
    show ?thesis using e wf_edge_data[OF assms] by (auto simp: edges_to_remove_mem)
  qed
  have "\<And>h. set h \<subseteq> set g \<Longrightarrow>
          edges (map (\<lambda>(m, md, adj). (m, md, filter (\<lambda>(w, d). (m, w) \<notin> set ?es) adj)) h) =
          filter (\<lambda>(u, v, d). \<not> is_walk_transfer d) (edges h)"
  proof -
    fix h show "set h \<subseteq> set g \<Longrightarrow>
          edges (map (\<lambda>(m, md, adj). (m, md, filter (\<lambda>(w, d). (m, w) \<notin> set ?es) adj)) h) =
          filter (\<lambda>(u, v, d). \<not> is_walk_transfer d) (edges h)"
    proof (induction h)
      case Nil
      then show ?case by (simp add: edges_def)
    next
      case (Cons e h)
      obtain m md adj where e: "e = (m, md, adj)" by (cases e)
      from Cons.prems e have mem: "(m, md, adj) \<in> set g" by simp
      have f: "filter (\<lambda>(w, d). (m, w) \<notin> set ?es) adj = filter (\<lambda>(w, d). \<not> is_walk_transfer d) adj"
        by (rule filter_cong[OF refl]) (use k[OF mem] in auto)
      have "map (\<lambda>(v, d). (m, v, d)) (filter (\<lambda>(w, d). \<not> is_walk_transfer d) adj) =
            filter (\<lambda>(u, v, d). \<not> is_walk_transfer d) (map (\<lambda>(v, d). (m, v, d)) adj)"
        by (induction adj) auto
      with Cons e f show ?case by (simp add: edges_Cons)
    qed
  qed
  then have "edges ?g' = filter (\<lambda>(u, v, d). \<not> is_walk_transfer d) (edges g)" by simp
  moreover have "wf_graph ?g'"
    using wf_graph_filter[OF assms, of "\<lambda>m (w, d). (m, w) \<notin> set ?es"] by simp
  ultimately show ?thesis using r n by blast
qed

lemma extract_pt_nodes_cong: "nodes_data g' = nodes_data g \<Longrightarrow> extract_pt_nodes g' = extract_pt_nodes g"
  by (simp add: extract_pt_nodes_def)

text \<open>
  C7 (as amended). When no node of a well-formed graph carries coordinates,
  \<^verbatim>\<open>add_walking_edges\<close> returns the \<^verbatim>\<open>no_pt_nodes\<close> dictionary without raising and adds
  no edge; the nodes are untouched, and the edges left are the edges of the input that
  are not tagged \<^verbatim>\<open>mode=walk, edge_type=pt_transfer\<close>, in their order: the clearing
  loop has run before the check. A graph without such edges is returned as it was.
\<close>

theorem no_pt_nodes_only_clears:
  assumes "wf_graph g" and "extract_pt_nodes g = []"
  shows "\<exists>g'. add_walking_edges geo max_walk_distance g = Inr (NoPtNodes, g') \<and>
           nodes_data g' = nodes_data g \<and>
           edges g' = filter (\<lambda>(u, v, d). \<not> is_walk_transfer d) (edges g) \<and>
           (edges_to_remove g = [] \<longrightarrow> g' = g)"
proof -
  from clear_walking[OF assms(1)] obtain g' where
    r: "remove_edges g (edges_to_remove g) = Inr g'" and n: "nodes_data g' = nodes_data g" and
    e: "edges g' = filter (\<lambda>(u, v, d). \<not> is_walk_transfer d) (edges g)" by blast
  from extract_pt_nodes_cong[OF n] assms(2) have x: "extract_pt_nodes g' = []" by simp
  have "add_walking_edges geo max_walk_distance g = Inr (NoPtNodes, g')"
    by (simp add: add_walking_edges_def r x)
  moreover have "edges_to_remove g = [] \<longrightarrow> g' = g"
  proof
    assume "edges_to_remove g = []"
    with r have "remove_edges g [] = Inr g'" by simp
    then show "g' = g" by simp
  qed
  ultimately show ?thesis using n e by (intro exI[of _ g'] conjI)
qed

lemma unlocated_wf: "wf_graph unlocated_graph"
  by (simp add: unlocated_graph_def wf_graph_def)

lemma unlocated_no_pt_nodes: "extract_pt_nodes unlocated_graph = []"
  by (simp add: unlocated_graph_def extract_pt_nodes_def nodes_data_def)

theorem no_pt_nodes_only_clears_witness:
  "wf_graph unlocated_graph \<and> extract_pt_nodes unlocated_graph = [] \<and>
   (\<exists>g'. add_walking_edges equator_geodesic MAX_WALKING_DISTANCE_M unlocated_graph = Inr (NoPtNodes, g') \<and>
      nodes_data g' = nodes_data unlocated_graph \<and>
      edges g' = filter (\<lambda>(u, v, d). \<not> is_walk_transfer d) (edges unlocated_graph) \<and>
      (edges_to_remove unlocated_graph = [] \<longrightarrow> g' = unlocated_graph))"
  by (rule conjI[OF unlocated_wf conjI[OF unlocated_no_pt_nodes
        no_pt_nodes_only_clears[OF unlocated_wf unlocated_no_pt_nodes]]])

text \<open>
  C7 (as stated) fails: both nodes of \<open>unlocated_graph\<close> lack coordinates, the graph
  has a walking edge from A to B, and the call returns \<^verbatim>\<open>no_pt_nodes\<close> with that edge
  removed.
\<close>

theorem no_pt_nodes_mutates_counterexample:
  "extract_pt_nodes unlocated_graph = [] \<and> has_edge unlocated_graph ''A'' ''B'' \<and>
   add_walking_edges equator_geodesic MAX_WALKING_DISTANCE_M unlocated_graph =
     Inr (NoPtNodes, [(''A'', Map.empty, []), (''B'', Map.empty, [])])"
proof -
  have 1: "edges_to_remove unlocated_graph = [(''A'', ''B'')]"
    by (simp add: unlocated_graph_def edges_to_remove_def edges_def is_walk_transfer_def)
  have 2: "remove_edges unlocated_graph [(''A'', ''B'')] =
             Inr [(''A'', Map.empty, []), (''B'', Map.empty, [])]"
    by (simp add: unlocated_graph_def remove_edge_def has_edge_def succ_of_def)
  have 3: "extract_pt_nodes [(''A'', Map.empty, []), (''B'', Map.empty, [])] = []"
    by (simp add: extract_pt_nodes_def nodes_data_def)
  have 4: "has_edge unlocated_graph ''A'' ''B''"
    by (simp add: unlocated_graph_def has_edge_def succ_of_def)
  have "add_walking_edges equator_geodesic MAX_WALKING_DISTANCE_M unlocated_graph =
          Inr (NoPtNodes, [(''A'', Map.empty, []), (''B'', Map.empty, [])])"
    unfolding add_walking_edges_def 1 2 by (simp add: 3)
  then show ?thesis
    by (simp add: unlocated_no_pt_nodes 4)
qed

text \<open>
  C10. The only node of \<open>uncharted_car_graph\<close> has no coordinates: it is left out of
  the index, the array of coordinates is empty, and \<^verbatim>\<open>KDTree\<close> raises.
\<close>

theorem car_index_raises_on_no_coordinates:
  "car_build_spatial_index uncharted_car_graph = Inl ValueError"
  by (simp add: car_build_spatial_index_def uncharted_car_graph_def nodes_data_def KDTree_def)

section \<open>Bounds on the equator\<close>

lemma arctan_partial_sums:
  fixes x :: real
  assumes "0 < x" "x \<le> 1"
  shows "(\<Sum>i<2*n. (- 1)^i * (1 / real (i * 2 + 1) * x^(i * 2 + 1))) \<le> arctan x"
    and "arctan x \<le> (\<Sum>i<2*n+1. (- 1)^i * (1 / real (i * 2 + 1) * x^(i * 2 + 1)))"
proof -
  have ax: "\<bar>x\<bar> \<le> 1" using assms by simp
  have pos: "0 < 1 / real (0 * 2 + 1) * x^(0 * 2 + 1)" using assms by simp
  from summable_Leibniz(2)[OF zeroseq_arctan_series[OF ax] monoseq_arctan_series[OF ax]] pos
  have "(\<Sum>i. (- 1)^i * (1 / real (i * 2 + 1) * x^(i * 2 + 1)))
          \<in> {\<Sum>i<2*n. (- 1)^i * (1 / real (i * 2 + 1) * x^(i * 2 + 1)) ..
              \<Sum>i<2*n+1. (- 1)^i * (1 / real (i * 2 + 1) * x^(i * 2 + 1))}"
    by blast
  then show "(\<Sum>i<2*n. (- 1)^i * (1 / real (i * 2 + 1) * x^(i * 2 + 1))) \<le> arctan x"
    and "arctan x \<le> (\<Sum>i<2*n+1. (- 1)^i * (1 / real (i * 2 + 1) * x^(i * 2 + 1)))"
    unfolding arctan_series[OF ax] by simp_all
qed

lemma arctan_fifth_upper:
  "arctan (1 / 5) \<le> 1 / 5 - 1 / 375 + 1 / 15625 - 1 / 546875 + 1 / 17578125"
  using arctan_partial_sums(2)[of "1 / 5" 2]
  by (simp add: lessThan_Suc numeral_eq_Suc)

lemma arctan_239_lower: "1 / 239 - 1 / 40955757 \<le> arctan (1 / 239)"
  using arctan_partial_sums(1)[of "1 / 239" 1]
  by (simp add: lessThan_Suc numeral_eq_Suc)

lemma pi_upper: "pi < 31415928 / 10000000"
proof -
  have "pi = 16 * arctan (1 / 5) - 4 * arctan (1 / 239)" using machin by simp
  also have "\<dots> \<le> 16 * (1 / 5 - 1 / 375 + 1 / 15625 - 1 / 546875 + 1 / 17578125)
                    - 4 * (1 / 239 - 1 / 40955757)"
    by (intro diff_mono mult_left_mono arctan_fifth_upper arctan_239_lower) simp_all
  also have "\<dots> < 31415928 / 10000000" by simp
  finally show ?thesis .
qed

lemma equator_geodesic_upper:
  assumes "0 \<le> c" and "6378137 * (\<bar>a - b\<bar> * (31415928 / 10000000)) / 180 \<le> c"
  shows "(c < equator_geodesic (x, a) (y, b)) = False"
proof -
  have "6378137 * (\<bar>a - b\<bar> * pi) / 180
               \<le> 6378137 * (\<bar>a - b\<bar> * (31415928 / 10000000)) / 180"
    using pi_upper by (intro divide_right_mono mult_left_mono) simp_all
  moreover have "equator_geodesic (x, a) (y, b) = 6378137 * (\<bar>a - b\<bar> * pi) / 180"
    by (simp add: equator_geodesic_def radians_def)
  ultimately have "equator_geodesic (x, a) (y, b) \<le> c" using assms(2) by linarith
  then show ?thesis by simp
qed

section \<open>A run on a graph with a one-way train edge\<close>

lemmas graph_eval = has_edge_def succ_of_def add_walking_edge_def add_edge_def has_node_def
  adj_update_def edge_data_def

lemma one_way_near:
  "(MAX_WALKING_DISTANCE_M < equator_geodesic (0, 0) (0, 1 / 10000)) = False"
  "(MAX_WALKING_DISTANCE_M < equator_geodesic (0, 1 / 10000) (0, 0)) = False"
  by (rule equator_geodesic_upper; simp add: MAX_WALKING_DISTANCE_M_def)+

lemma one_way_index:
  "(extract_pt_nodes one_way_train_graph = []) = False"
  "build_spatial_index (extract_pt_nodes one_way_train_graph) =
     Inr ([''A'', ''B''], [(0, 0), (0, 1 / 10000)])"
  by (simp_all add: one_way_train_graph_def extract_pt_nodes_def nodes_data_def
      build_spatial_index_def KDTree_def)

lemma one_way_queries:
  "pt_search_radius MAX_WALKING_DISTANCE_M [(0, 0), (0, 1 / 10000)] = 15 / 5566"
  "query_ball_point [(0, 0), (0, 1 / 10000)] (0, 0) (15 / 5566) = [0, 1]"
  "query_ball_point [(0, 0), (0, 1 / 10000)] (0, 1 / 10000) (15 / 5566) = [0, 1]"
  by (simp_all add: pt_search_radius_def mean_def radians_def MAX_WALKING_DISTANCE_M_def
      query_ball_point_def planar_within_def upt_rec power2_eq_square)

lemma one_way_edges:
  "edges_to_remove one_way_train_graph = []"
  "has_edge one_way_train_graph ''A'' ''B'' = False"
  "has_edge (add_walking_edge (add_walking_edge one_way_train_graph ''A'' ''B'' d) ''B'' ''A'' d)
     ''B'' ''A'' = True"
  by (simp_all add: one_way_train_graph_def edges_to_remove_def edges_def is_walk_transfer_def
      graph_eval)

lemma one_way_run_eq:
  "one_way_run =
     Inr (Stats \<lparr>edges_added = 2, unique_pairs = 1, nodes_checked = 2,
                 skipped_existing = 1, skipped_too_far = 0\<rparr>,
          add_walking_edge
            (add_walking_edge one_way_train_graph ''A'' ''B'' (equator_geodesic (0, 0) (0, 1 / 10000)))
            ''B'' ''A'' (equator_geodesic (0, 0) (0, 1 / 10000)))"
  by (simp add: one_way_run_def add_walking_edges_def one_way_edges one_way_index
      add_connections_def KDTree_def one_way_queries upt_rec visit_node_def visit_neighbor_def
      one_way_near empty_stats_def Let_def)

text \<open>
  C3. B and A are within the walking budget and the graph has the train edge from B to
  A, but none from A to B. The run does not skip the pair: it inserts a walking edge
  from A to B, and the edge from B to A is now a walking edge that still carries the
  route type of the train edge. The pair is counted as skipped only when it comes up
  again from B.
\<close>

theorem one_way_train_edge_overwritten:
  "the (edge_data one_way_train_graph ''B'' ''A'') ''mode'' = Some (PStr ''train'') \<and>
   \<not> isl one_way_run \<and>
   fst (projr one_way_run) =
     Stats \<lparr>edges_added = 2, unique_pairs = 1, nodes_checked = 2,
             skipped_existing = 1, skipped_too_far = 0\<rparr> \<and>
   is_walk_transfer (the (edge_data (snd (projr one_way_run)) ''A'' ''B'')) \<and>
   the (edge_data (snd (projr one_way_run)) ''B'' ''A'') ''mode'' = Some (PStr ''walk'') \<and>
   the (edge_data (snd (projr one_way_run)) ''B'' ''A'') ''edge_type'' = Some (PStr ''pt_transfer'') \<and>
   the (edge_data (snd (projr one_way_run)) ''B'' ''A'') ''route_type'' = Some (PNum 1)"
  unfolding one_way_run_eq
  by (simp add: one_way_train_graph_def graph_eval walking_attrs_def is_walk_transfer_def)

lemma bare_index:
  "(extract_pt_nodes [(''A'', [''lat'' \<mapsto> 0, ''lon'' \<mapsto> 0], []),
                      (''B'', [''lat'' \<mapsto> 0, ''lon'' \<mapsto> 1 / 10000], [])] = []) = False"
  "build_spatial_index
     (extract_pt_nodes [(''A'', [''lat'' \<mapsto> 0, ''lon'' \<mapsto> 0], []),
                        (''B'', [''lat'' \<mapsto> 0, ''lon'' \<mapsto> 1 / 10000], [])]) =
     Inr ([''A'', ''B''], [(0, 0), (0, 1 / 10000)])"
  by (simp_all add: extract_pt_nodes_def nodes_data_def build_spatial_index_def KDTree_def)

lemma one_way_rerun_clear:
  "remove_edges
     (add_walking_edge (add_walking_edge one_way_train_graph ''A'' ''B'' d) ''B'' ''A'' d)
     (edges_to_remove
        (add_walking_edge (add_walking_edge one_way_train_graph ''A'' ''B'' d) ''B'' ''A'' d)) =
   Inr [(''A'', [''lat'' \<mapsto> 0, ''lon'' \<mapsto> 0], []),
        (''B'', [''lat'' \<mapsto> 0, ''lon'' \<mapsto> 1 / 10000], [])]"
  by (simp add: one_way_train_graph_def graph_eval edges_to_remove_def edges_def
      is_walk_transfer_def walking_attrs_def remove_edge_def)

lemma bare_edges:
  "has_edge [(''A'', [''lat'' \<mapsto> 0, ''lon'' \<mapsto> 0], []),
             (''B'', [''lat'' \<mapsto> 0, ''lon'' \<mapsto> 1 / 10000], [])] ''A'' ''B'' = False"
  "has_edge
     (add_walking_edge
        (add_walking_edge [(''A'', [''lat'' \<mapsto> 0, ''lon'' \<mapsto> 0], []),
                           (''B'', [''lat'' \<mapsto> 0, ''lon'' \<mapsto> 1 / 10000], [])] ''A'' ''B'' d)
        ''B'' ''A'' d) ''B'' ''A'' = True"
  by (simp_all add: graph_eval)

lemma one_way_rerun_eq:
  "one_way_rerun =
     Inr (Stats \<lparr>edges_added = 2, unique_pairs = 1, nodes_checked = 2,
                 skipped_existing = 1, skipped_too_far = 0\<rparr>,
          add_walking_edge
            (add_walking_edge [(''A'', [''lat'' \<mapsto> 0, ''lon'' \<mapsto> 0], []),
                               (''B'', [''lat'' \<mapsto> 0, ''lon'' \<mapsto> 1 / 10000], [])]
               ''A'' ''B'' (equator_geodesic (0, 0) (0, 1 / 10000)))
            ''B'' ''A'' (equator_geodesic (0, 0) (0, 1 / 10000)))"
  unfolding one_way_rerun_def one_way_run_eq
  by (simp add: add_walking_edges_def one_way_rerun_clear bare_index bare_edges
      add_connections_def KDTree_def one_way_queries upt_rec visit_node_def visit_neighbor_def
      one_way_near empty_stats_def Let_def)

text \<open>
  C5. The second run on the graph of \<open>one_way_train_graph\<close> returns the same counters
  and joins the same pairs, but not the same edges: after the first run the edge from B
  to A still carries the route type of the train edge it has overwritten; the second run
  removes that edge with the walking edges and inserts a fresh one, without a route
  type.
\<close>

theorem second_run_changes_edges:
  "\<not> isl one_way_run \<and> \<not> isl one_way_rerun \<and>
   fst (projr one_way_rerun) = fst (projr one_way_run) \<and>
   has_edge (snd (projr one_way_run)) ''B'' ''A'' \<and>
   the (edge_data (snd (projr one_way_run)) ''B'' ''A'') ''route_type'' = Some (PNum 1) \<and>
   has_edge (snd (projr one_way_rerun)) ''B'' ''A'' \<and>
   the (edge_data (snd (projr one_way_rerun)) ''B'' ''A'') ''route_type'' = None"
  unfolding one_way_run_eq one_way_rerun_eq
  by (simp add: one_way_train_graph_def graph_eval walking_attrs_def)

section \<open>A pair just inside the walking budget\<close>

lemma near_miss_index:
  "(extract_pt_nodes near_miss_graph = []) = False"
  "build_spatial_index (extract_pt_nodes near_miss_graph) = Inr ([''P'', ''Q''], near_miss_coords)"
  by (simp_all add: near_miss_graph_def near_miss_coords_def extract_pt_nodes_def nodes_data_def
      build_spatial_index_def KDTree_def)

lemma near_miss_queries:
  "query_ball_point near_miss_coords (near_miss_coords ! 0)
     (pt_search_radius MAX_WALKING_DISTANCE_M near_miss_coords) = [0]"
  "query_ball_point near_miss_coords (near_miss_coords ! 1)
     (pt_search_radius MAX_WALKING_DISTANCE_M near_miss_coords) = [1]"
  by (simp_all add: near_miss_coords_def pt_search_radius_def mean_def radians_def
      MAX_WALKING_DISTANCE_M_def query_ball_point_def planar_within_def upt_rec power2_eq_square)

lemma near_miss_geodesic:
  "equator_geodesic (near_miss_coords ! 0) (near_miss_coords ! 1) \<le> MAX_WALKING_DISTANCE_M"
proof -
  have "(MAX_WALKING_DISTANCE_M < equator_geodesic (0, 0) (0, 269494 / 100000000)) = False"
    by (rule equator_geodesic_upper; simp add: MAX_WALKING_DISTANCE_M_def)
  then show ?thesis by (simp add: near_miss_coords_def)
qed

lemma near_miss_run:
  "add_walking_edges equator_geodesic MAX_WALKING_DISTANCE_M near_miss_graph =
     Inr (Stats \<lparr>edges_added = 0, unique_pairs = 0, nodes_checked = 2,
                 skipped_existing = 0, skipped_too_far = 0\<rparr>, near_miss_graph)"
proof -
  have c: "edges_to_remove near_miss_graph = []"
    by (simp add: near_miss_graph_def edges_to_remove_def edges_def)
  have l: "length near_miss_coords = 2" by (simp add: near_miss_coords_def)
  have n: "near_miss_coords \<noteq> []" by (simp add: near_miss_coords_def)
  show ?thesis
    by (simp add: add_walking_edges_def c near_miss_index add_connections_def KDTree_def n
        upt_rec visit_node_def l near_miss_queries[simplified] visit_neighbor_def empty_stats_def Let_def)
qed

text \<open>
  C2 (as stated) fails. The stops P and Q of \<open>near_miss_graph\<close> are indexed at
  \<open>near_miss_coords\<close>; their geodesic distance is within the budget of 300 m, but the
  radius query for P with the radius of the PT-to-PT connector does not return Q, and
  the connector adds no edge.
\<close>

theorem radius_query_false_negative_counterexample:
  "build_spatial_index (extract_pt_nodes near_miss_graph) = Inr ([''P'', ''Q''], near_miss_coords) \<and>
   equator_geodesic (near_miss_coords ! 0) (near_miss_coords ! 1) \<le> MAX_WALKING_DISTANCE_M \<and>
   1 \<notin> set (query_ball_point near_miss_coords (near_miss_coords ! 0)
              (pt_search_radius MAX_WALKING_DISTANCE_M near_miss_coords)) \<and>
   add_walking_edges equator_geodesic MAX_WALKING_DISTANCE_M near_miss_graph =
     Inr (Stats \<lparr>edges_added = 0, unique_pairs = 0, nodes_checked = 2,
                 skipped_existing = 0, skipped_too_far = 0\<rparr>, near_miss_graph)"
  using near_miss_index(2) near_miss_geodesic near_miss_run
  by (simp add: near_miss_queries)

section \<open>The scenario of the specification\<close>

text \<open>
  C4 (as stated) fails on its own scenario. The road node R1 is within the budget of
  the station S1, yet both road nodes have latitude 0, the test \<^verbatim>\<open>if lat and lon\<close>
  leaves them out of the index, and the connector raises instead of producing a record.
\<close>

theorem scenario_no_record_counterexample:
  "equator_geodesic (st_lat (hd scenario_stations), st_lon (hd scenario_stations)) (0, 0)
     \<le> MAX_WALKING_DISTANCE_M \<and>
   index_road_nodes (nodes_data scenario_car_graph) = ([], []) \<and>
   car_to_pt equator_geodesic MAX_WALKING_DISTANCE_M scenario_car_graph scenario_stations =
     Inl ValueError"
proof -
  have "(MAX_WALKING_DISTANCE_M < equator_geodesic (0, 5 / 10000) (0, 0)) = False"
    by (rule equator_geodesic_upper; simp add: MAX_WALKING_DISTANCE_M_def)
  then have 1: "equator_geodesic (st_lat (hd scenario_stations), st_lon (hd scenario_stations)) (0, 0)
     \<le> MAX_WALKING_DISTANCE_M" by (simp add: scenario_stations_def)
  have 2: "index_road_nodes (nodes_data scenario_car_graph) = ([], [])"
    by (simp add: scenario_car_graph_def nodes_data_def)
  have 3: "car_to_pt equator_geodesic MAX_WALKING_DISTANCE_M scenario_car_graph scenario_stations =
     Inl ValueError"
    by (simp add: car_to_pt_def car_build_spatial_index_def 2 KDTree_def)
  from 1 2 3 show ?thesis by simp
qed

section \<open>A connection record over an existing edge\<close>

text \<open>
  C8 (as stated) fails. The car graph has an edge from road_1 to S1 and the connection
  list has a record for the same pair: the combined graph has one edge from road_1 to
  S1, the car edge with the attributes of the record written over its own.
\<close>

theorem connection_overwrites_counterexample:
  "the (edge_data overlap_car_graph ''road_1'' ''S1'') ''mode'' = Some (PStr ''car'') \<and>
   length (edges (create_combined_graph overlap_pt_graph overlap_car_graph overlap_connections)) = 1 \<and>
   the (edge_data (create_combined_graph overlap_pt_graph overlap_car_graph overlap_connections)
          ''road_1'' ''S1'') ''mode'' = Some (PStr ''walk'') \<and>
   the (edge_data (create_combined_graph overlap_pt_graph overlap_car_graph overlap_connections)
          ''road_1'' ''S1'') ''distance'' = Some (PNum 14)"
proof -
  have pt: "backfill_transport
              (backfill_walking
                 (add_edges_from (add_nodes_from [] (nodes_data overlap_pt_graph))
                    (edges overlap_pt_graph))
                 (edges overlap_pt_graph)) =
            [(''S1'', [''lat'' \<mapsto> 1, ''lon'' \<mapsto> 1], [])]"
    by (simp add: overlap_pt_graph_def add_nodes_from_def add_edges_from_def nodes_data_def
        edges_def backfill_walking_def backfill_transport_def backfill_transport_node_def
        add_node_def has_node_def succ_of_def)
  have car: "add_edges_from
               (add_nodes_from [(''S1'', [''lat'' \<mapsto> 1, ''lon'' \<mapsto> 1], [])]
                  (nodes_data overlap_car_graph))
               (edges overlap_car_graph) =
             [(''S1'', [''lat'' \<mapsto> 1, ''lon'' \<mapsto> 1], []),
              (''road_1'', [''lat'' \<mapsto> 1, ''lon'' \<mapsto> 10001 / 10000],
                 [(''S1'', [''mode'' \<mapsto> PStr ''car'', ''distance'' \<mapsto> PNum 40])])]"
    by (simp add: overlap_car_graph_def add_nodes_from_def add_edges_from_def nodes_data_def
        edges_def add_node_def add_edge_def has_node_def adj_update_def)
  have all: "create_combined_graph overlap_pt_graph overlap_car_graph overlap_connections =
             add_edge
               [(''S1'', [''lat'' \<mapsto> 1, ''lon'' \<mapsto> 1], []),
                (''road_1'', [''lat'' \<mapsto> 1, ''lon'' \<mapsto> 10001 / 10000],
                   [(''S1'', [''mode'' \<mapsto> PStr ''car'', ''distance'' \<mapsto> PNum 40])])]
               ''road_1'' ''S1'' (connection_attrs (hd overlap_connections))"
    unfolding create_combined_graph_def Let_def pt car
    by (simp add: add_connection_edges_def overlap_connections_def)
  show ?thesis
    unfolding all
    by (simp add: overlap_car_graph_def overlap_connections_def connection_attrs_def
        add_edge_def has_node_def adj_update_def edge_data_def succ_of_def edges_def)
qed

section \<open>The loops of the PT-to-PT connector\<close>

lemma collect_coords_total:
  "\<forall>(n, nd) \<in> set xs. ''lat'' \<in> dom nd \<and> ''lon'' \<in> dom nd \<Longrightarrow>
   \<exists>cs. collect_coords xs = Inr (map fst xs, cs) \<and> length cs = length xs"
proof (induction xs)
  case Nil
  then show ?case by simp
next
  case (Cons e xs)
  obtain n nd where e: "e = (n, nd)" by (cases e)
  from Cons.prems e obtain la lo where l: "nd ''lat'' = Some la" "nd ''lon'' = Some lo" by auto
  from Cons obtain cs where "collect_coords xs = Inr (map fst xs, cs)" "length cs = length xs"
    by auto
  with e l show ?case by simp
qed

lemma build_spatial_index_extract:
  "extract_pt_nodes g \<noteq> [] \<Longrightarrow>
   \<exists>cs. build_spatial_index (extract_pt_nodes g) = Inr (map fst (extract_pt_nodes g), cs) \<and>
         length cs = length (extract_pt_nodes g)"
proof -
  assume ne: "extract_pt_nodes g \<noteq> []"
  have "\<forall>(n, nd) \<in> set (extract_pt_nodes g). ''lat'' \<in> dom nd \<and> ''lon'' \<in> dom nd"
    by (auto simp: extract_pt_nodes_def)
  from collect_coords_total[OF this] obtain cs where
    c: "collect_coords (extract_pt_nodes g) = Inr (map fst (extract_pt_nodes g), cs)"
    and l: "length cs = length (extract_pt_nodes g)" by blast
  from l ne have "cs \<noteq> []" by auto
  with c l show ?thesis by (simp add: build_spatial_index_def KDTree_def)
qed

lemma query_ball_point_bound: "j \<in> set (query_ball_point cs x r) \<Longrightarrow> j < length cs"
  by (simp add: query_ball_point_def)

lemma visit_neighbor_inv:
  assumes "P g" and "j < length ids"
    and step: "\<And>h a b d. P h \<Longrightarrow> d \<le> mx \<Longrightarrow> \<not> has_edge h a b \<Longrightarrow>
                 P (add_walking_edge (add_walking_edge h a b d) b a d)"
  shows "\<exists>g' s' p'. visit_neighbor geo mx ids cs i j (g, s, p) = Inr (g', s', p') \<and> P g'"
proof (cases "i = j")
  case True
  with assms(1) show ?thesis by (simp add: visit_neighbor_def)
next
  case False
  show ?thesis
  proof (cases "mx < geo (cs ! i) (cs ! j)")
    case True
    with False assms(1,2) show ?thesis by (simp add: visit_neighbor_def Let_def)
  next
    case near: False
    show ?thesis
    proof (cases "has_edge g (ids ! i) (ids ! j)")
      case True
      with False near assms(1,2) show ?thesis by (simp add: visit_neighbor_def Let_def)
    next
      case False
      from near have "geo (cs ! i) (cs ! j) \<le> mx" by simp
      from step[OF assms(1) this False] \<open>i \<noteq> j\<close> near False assms(2)
      show ?thesis by (simp add: visit_neighbor_def Let_def)
    qed
  qed
qed

lemma visit_neighbors_inv:
  assumes "P g" and "\<forall>j \<in> set js. j < length ids"
    and step: "\<And>h a b d. P h \<Longrightarrow> d \<le> mx \<Longrightarrow> \<not> has_edge h a b \<Longrightarrow>
                 P (add_walking_edge (add_walking_edge h a b d) b a d)"
  shows "\<exists>g' s' p'. visit_neighbors geo mx ids cs i js (g, s, p) = Inr (g', s', p') \<and> P g'"
  using assms(1,2)
proof (induction js arbitrary: g s p)
  case Nil
  then show ?case by simp
next
  case (Cons j js)
  from Cons.prems have "j < length ids" by simp
  from visit_neighbor_inv[where P = P and geo = geo and cs = cs and i = i and s = s and p = p,
      OF Cons.prems(1) this step]
  obtain g1 s1 p1 where 1: "visit_neighbor geo mx ids cs i j (g, s, p) = Inr (g1, s1, p1)"
    and 2: "P g1" by blast
  from Cons.IH[OF 2, of s1 p1] Cons.prems(2)
  obtain g' s' p' where "visit_neighbors geo mx ids cs i js (g1, s1, p1) = Inr (g', s', p')" "P g'"
    by auto
  with 1 show ?case by simp
qed

lemma visit_node_inv:
  assumes "P g" and "i < length cs" and "length ids = length cs"
    and step: "\<And>h a b d. P h \<Longrightarrow> d \<le> mx \<Longrightarrow> \<not> has_edge h a b \<Longrightarrow>
                 P (add_walking_edge (add_walking_edge h a b d) b a d)"
  shows "\<exists>g' s' p'. visit_node geo mx ids cs r i (g, s, p) = Inr (g', s', p') \<and> P g'"
proof -
  have b: "\<forall>j \<in> set (query_ball_point cs (cs ! i) r). j < length ids"
    using query_ball_point_bound assms(3) by auto
  from visit_neighbors_inv[where P = P and geo = geo and cs = cs and i = i and p = p and
        s = "s\<lparr>nodes_checked := nodes_checked s + 1\<rparr>", OF assms(1) b step] assms(2)
  show ?thesis by (simp add: visit_node_def)
qed

lemma visit_nodes_inv:
  assumes "P g" and "\<forall>i \<in> set is. i < length cs" and "length ids = length cs"
    and step: "\<And>h a b d. P h \<Longrightarrow> d \<le> mx \<Longrightarrow> \<not> has_edge h a b \<Longrightarrow>
                 P (add_walking_edge (add_walking_edge h a b d) b a d)"
  shows "\<exists>g' s' p'. visit_nodes geo mx ids cs r is (g, s, p) = Inr (g', s', p') \<and> P g'"
  using assms(1,2)
proof (induction "is" arbitrary: g s p)
  case Nil
  then show ?case by simp
next
  case (Cons i "is")
  from Cons.prems have "i < length cs" by simp
  from visit_node_inv[where P = P and geo = geo and r = r and s = s and p = p,
      OF Cons.prems(1) this assms(3) step]
  obtain g1 s1 p1 where 1: "visit_node geo mx ids cs r i (g, s, p) = Inr (g1, s1, p1)"
    and 2: "P g1" by blast
  from Cons.IH[OF 2, of s1 p1] Cons.prems(2)
  obtain g' s' p' where "visit_nodes geo mx ids cs r is (g1, s1, p1) = Inr (g', s', p')" "P g'"
    by auto
  with 1 show ?case by simp
qed

lemma add_connections_inv:
  assumes "P g" and "cs \<noteq> []" and "length ids = length cs"
    and step: "\<And>h a b d. P h \<Longrightarrow> d \<le> mx \<Longrightarrow> \<not> has_edge h a b \<Longrightarrow>
                 P (add_walking_edge (add_walking_edge h a b d) b a d)"
  shows "\<exists>s g'. add_connections geo mx g ids cs = Inr (s, g') \<and> P g'"
proof -
  have b: "\<forall>i \<in> set [0..<length ids]. i < length cs" using assms(3) by simp
  from visit_nodes_inv[where P = P and geo = geo and r = "pt_search_radius mx cs" and s = empty_stats
      and p = "[]", OF assms(1) b assms(3) step]
  obtain g' s' p' where
    "visit_nodes geo mx ids cs (pt_search_radius mx cs) [0..<length ids] (g, empty_stats, []) =
       Inr (g', s', p')" "P g'" by blast
  with assms(2) show ?thesis by (simp add: add_connections_def KDTree_def)
qed

lemma add_walking_edges_inv:
  assumes wf: "wf_graph g"
    and clear: "\<And>g1. wf_graph g1 \<Longrightarrow> nodes_data g1 = nodes_data g \<Longrightarrow>
                  edges g1 = filter (\<lambda>(u, v, d). \<not> is_walk_transfer d) (edges g) \<Longrightarrow> P g1"
    and step: "\<And>h a b d. P h \<Longrightarrow> d \<le> mx \<Longrightarrow> \<not> has_edge h a b \<Longrightarrow>
                 P (add_walking_edge (add_walking_edge h a b d) b a d)"
  shows "\<exists>r g'. add_walking_edges geo mx g = Inr (r, g') \<and> P g'"
proof -
  from clear_walking[OF wf] obtain g1 where
    r: "remove_edges g (edges_to_remove g) = Inr g1" and n: "nodes_data g1 = nodes_data g" and
    e: "edges g1 = filter (\<lambda>(u, v, d). \<not> is_walk_transfer d) (edges g)" and w: "wf_graph g1"
    by blast
  have p1: "P g1" by (rule clear[OF w n e])
  show ?thesis
  proof (cases "extract_pt_nodes g1 = []")
    case True
    with r p1 show ?thesis by (simp add: add_walking_edges_def)
  next
    case False
    from build_spatial_index_extract[OF False] obtain cs where
      b: "build_spatial_index (extract_pt_nodes g1) = Inr (map fst (extract_pt_nodes g1), cs)"
      and l: "length cs = length (extract_pt_nodes g1)" by blast
    from l False have ne: "cs \<noteq> []" by auto
    from l have l': "length (map fst (extract_pt_nodes g1)) = length cs" by simp
    from add_connections_inv[where P = P and geo = geo, OF p1 ne l' step]
    obtain s g' where
      "add_connections geo mx g1 (map fst (extract_pt_nodes g1)) cs = Inr (s, g')" "P g'"
      by blast
    with r False b show ?thesis by (simp add: add_walking_edges_def)
  qed
qed

section \<open>What a pair of walking edges leaves in the graph\<close>

lemma walking_attrs_lookup:
  "(m ++ walking_attrs d) ''mode'' = Some (PStr ''walk'')"
  "(m ++ walking_attrs d) ''edge_type'' = Some (PStr ''pt_transfer'')"
  "(m ++ walking_attrs d) ''distance'' = Some (PNum d)"
  "(m ++ walking_attrs d) ''time'' = Some (PNum (d / WALKING_SPEED))"
  "(m ++ walking_attrs d) ''emissions'' = Some (PNum 0)"
  by (simp_all add: walking_attrs_def Let_def map_add_def)

lemma edge_data_walking_pair_in:
  "(x = a \<and> y = b) \<or> (x = b \<and> y = a) \<Longrightarrow>
   \<exists>m. edge_data (add_walking_edge (add_walking_edge h a b d) b a d) x y =
          Some (m ++ walking_attrs d)"
proof (cases "x = b \<and> y = a")
  case True
  let ?m = "case edge_data (add_edge h a b (walking_attrs d)) b a of
              None \<Rightarrow> Map.empty | Some m \<Rightarrow> m"
  from True have "edge_data (add_walking_edge (add_walking_edge h a b d) b a d) x y =
               Some (?m ++ walking_attrs d)"
    by (simp add: add_walking_edge_def edge_data_add_edge)
  then show ?thesis by (rule exI[where x = ?m])
next
  case False
  assume "(x = a \<and> y = b) \<or> (x = b \<and> y = a)"
  with False have "x = a \<and> y = b" by blast
  let ?m = "case edge_data h a b of None \<Rightarrow> Map.empty | Some m \<Rightarrow> m"
  from False \<open>x = a \<and> y = b\<close>
  have "edge_data (add_walking_edge (add_walking_edge h a b d) b a d) x y =
               Some (?m ++ walking_attrs d)"
    by (simp add: add_walking_edge_def edge_data_add_edge)
  then show ?thesis by (rule exI[where x = ?m])
qed

lemma edge_data_walking_pair_out:
  "\<not> ((x = a \<and> y = b) \<or> (x = b \<and> y = a)) \<Longrightarrow>
   edge_data (add_walking_edge (add_walking_edge h a b d) b a d) x y = edge_data h x y"
proof -
  assume "\<not> ((x = a \<and> y = b) \<or> (x = b \<and> y = a))"
  then have 1: "\<not> (x = b \<and> y = a)" and 2: "\<not> (x = a \<and> y = b)" by blast+
  show ?thesis
    by (simp only: add_walking_edge_def edge_data_add_edge if_not_P[OF 1] if_not_P[OF 2])
qed

lemma no_walk_after_clear:
  assumes "edges g1 = filter (\<lambda>(u, v, d). \<not> is_walk_transfer d) (edges g)"
    and "edge_data g1 u v = Some d"
  shows "\<not> is_walk_transfer d"
proof -
  from edge_data_in_edges[OF assms(2)] assms(1)
  have "(u, v, d) \<in> set (filter (\<lambda>(u, v, d). \<not> is_walk_transfer d) (edges g))" by simp
  then show ?thesis by simp
qed

lemma walking_paired_step:
  assumes "walking_paired h"
  shows "walking_paired (add_walking_edge (add_walking_edge h a b d) b a d)"
  unfolding walking_paired_def
proof (intro allI impI)
  fix u v e
  let ?h' = "add_walking_edge (add_walking_edge h a b d) b a d"
  assume a: "edge_data ?h' u v = Some e \<and> is_walk_transfer e"
  show "\<exists>d'. edge_data ?h' v u = Some d' \<and> is_walk_transfer d' \<and> matched_walk e d'"
  proof (cases "(u = a \<and> v = b) \<or> (u = b \<and> v = a)")
    case True
    then have rev: "(v = a \<and> u = b) \<or> (v = b \<and> u = a)" by auto
    from edge_data_walking_pair_in[OF True, of h d] a obtain m where m: "e = m ++ walking_attrs d"
      by auto
    from edge_data_walking_pair_in[OF rev, of h d] obtain m' where
      m': "edge_data ?h' v u = Some (m' ++ walking_attrs d)" by blast
    show ?thesis unfolding m' m
      by (simp add: is_walk_transfer_def matched_walk_def walking_attrs_lookup)
  next
    case False
    then have rev: "\<not> ((v = a \<and> u = b) \<or> (v = b \<and> u = a))" by auto
    from a have "edge_data h u v = Some e \<and> is_walk_transfer e"
      by (simp add: edge_data_walking_pair_out[OF False])
    with assms show ?thesis
      unfolding walking_paired_def edge_data_walking_pair_out[OF rev] by blast
  qed
qed

lemma add_walking_edges_paired:
  assumes "wf_graph g"
  shows "\<exists>r g'. add_walking_edges geo mx g = Inr (r, g') \<and> (wf_graph g' \<and> walking_paired g')"
proof (rule add_walking_edges_inv[OF assms])
  fix g1 assume "wf_graph g1"
    and "edges g1 = filter (\<lambda>(u, v, d). \<not> is_walk_transfer d) (edges g)"
  then show "wf_graph g1 \<and> walking_paired g1"
    using no_walk_after_clear unfolding walking_paired_def by blast
next
  fix h a b d assume "wf_graph h \<and> walking_paired h"
  then show "wf_graph (add_walking_edge (add_walking_edge h a b d) b a d) \<and>
             walking_paired (add_walking_edge (add_walking_edge h a b d) b a d)"
    using walking_paired_step[of h a b d]
    by (simp add: add_walking_edge_def wf_graph_add_edge)
qed

section \<open>The walking budget\<close>

lemma within_budget_step:
  assumes "\<forall>u v e. edge_data h u v = Some e \<and> is_walk_transfer e \<longrightarrow>
             (\<exists>x. e ''distance'' = Some (PNum x) \<and> x \<le> mx)"
    and "d \<le> mx"
  shows "\<forall>u v e. edge_data (add_walking_edge (add_walking_edge h a b d) b a d) u v = Some e \<and>
             is_walk_transfer e \<longrightarrow> (\<exists>x. e ''distance'' = Some (PNum x) \<and> x \<le> mx)"
proof (intro allI impI)
  fix u v e
  let ?h' = "add_walking_edge (add_walking_edge h a b d) b a d"
  assume a: "edge_data ?h' u v = Some e \<and> is_walk_transfer e"
  show "\<exists>x. e ''distance'' = Some (PNum x) \<and> x \<le> mx"
  proof (cases "(u = a \<and> v = b) \<or> (u = b \<and> v = a)")
    case True
    from edge_data_walking_pair_in[OF True, of h d] a obtain m where "e = m ++ walking_attrs d"
      by auto
    with assms(2) show ?thesis by (simp add: walking_attrs_lookup)
  next
    case False
    from a have "edge_data h u v = Some e \<and> is_walk_transfer e"
      by (simp add: edge_data_walking_pair_out[OF False])
    with assms(1) show ?thesis by blast
  qed
qed

lemma add_walking_edges_within_budget:
  assumes "wf_graph g"
  shows "\<exists>r g'. add_walking_edges geo mx g = Inr (r, g') \<and>
           (\<forall>u v e. edge_data g' u v = Some e \<and> is_walk_transfer e \<longrightarrow>
              (\<exists>x. e ''distance'' = Some (PNum x) \<and> x \<le> mx))"
proof (rule add_walking_edges_inv[OF assms])
  fix g1 assume "edges g1 = filter (\<lambda>(u, v, d). \<not> is_walk_transfer d) (edges g)"
  then show "\<forall>u v e. edge_data g1 u v = Some e \<and> is_walk_transfer e \<longrightarrow>
              (\<exists>x. e ''distance'' = Some (PNum x) \<and> x \<le> mx)"
    using no_walk_after_clear by blast
next
  fix h a b d
  assume "\<forall>u v e. edge_data h u v = Some e \<and> is_walk_transfer e \<longrightarrow>
              (\<exists>x. e ''distance'' = Some (PNum x) \<and> x \<le> mx)" and "d \<le> mx"
  then show "\<forall>u v e. edge_data (add_walking_edge (add_walking_edge h a b d) b a d) u v = Some e \<and>
             is_walk_transfer e \<longrightarrow> (\<exists>x. e ''distance'' = Some (PNum x) \<and> x \<le> mx)"
    by (rule within_budget_step)
qed

section \<open>The loops of the Car-to-PT connector\<close>

lemma closest_loop_bound:
  "closest_loop geo mx rn rc sc idxs st = Inr (Some (r, m)) \<Longrightarrow>
   (\<forall>r0 m0. st = Some (r0, m0) \<longrightarrow> m0 \<le> mx) \<Longrightarrow> m \<le> mx"
proof (induction idxs arbitrary: st)
  case Nil
  then show ?case by simp
next
  case (Cons idx idxs)
  let ?d = "geo sc (rc ! idx)"
  let ?c = "(case st of None \<Rightarrow> True | Some (closest_road, min_distance) \<Rightarrow> ?d < min_distance)
              \<and> ?d \<le> mx"
  let ?st' = "if ?c then Some (rn ! idx, ?d) else st"
  have nle: "\<not> length rn \<le> idx"
  proof
    assume "length rn \<le> idx"
    then have "closest_loop geo mx rn rc sc (idx # idxs) st = Inl IndexError" by simp
    with Cons.prems(1) show False by simp
  qed
  then have "closest_loop geo mx rn rc sc (idx # idxs) st = closest_loop geo mx rn rc sc idxs ?st'"
    by (simp only: closest_loop.simps Let_def if_False)
  with Cons.prems(1) have r: "closest_loop geo mx rn rc sc idxs ?st' = Inr (Some (r, m))"
    by simp
  have "\<forall>r0 m0. ?st' = Some (r0, m0) \<longrightarrow> m0 \<le> mx" using Cons.prems(2) by auto
  from Cons.IH[OF r this] show ?case .
qed

lemma connect_station_bound:
  "connect_station geo mx G_car rn rc s = Inr (Some c) \<Longrightarrow> conn_distance c \<le> mx"
proof -
  assume a: "connect_station geo mx G_car rn rc s = Inr (Some c)"
  let ?idxs = "query_ball_point rc (st_lat s, st_lon s) (mx / 111320)"
  from a obtain r m where l: "closest_loop geo mx rn rc (st_lat s, st_lon s) ?idxs None = Inr (Some (r, m))"
    and c: "conn_distance c = m"
    by (auto simp: connect_station_def Let_def split: if_splits sum.splits option.splits)
  from closest_loop_bound[OF l] c show ?thesis by simp
qed

lemma connect_stations_bound:
  "connect_stations geo mx G_car rn rc ss acc = Inr conns \<Longrightarrow>
   \<forall>c \<in> set acc. conn_distance c \<le> mx \<Longrightarrow> \<forall>c \<in> set conns. conn_distance c \<le> mx"
proof (induction ss arbitrary: acc)
  case Nil
  then show ?case by simp
next
  case (Cons s ss)
  show ?case
  proof (cases "connect_station geo mx G_car rn rc s")
    case (Inl e)
    with Cons.prems(1) show ?thesis by simp
  next
    case (Inr opt)
    show ?thesis
    proof (cases opt)
      case None
      with Inr Cons.prems(1) have "connect_stations geo mx G_car rn rc ss acc = Inr conns" by simp
      from Cons.IH[OF this Cons.prems(2)] show ?thesis .
    next
      case (Some c)
      with Inr Cons.prems(1)
      have r: "connect_stations geo mx G_car rn rc ss (acc @ [c]) = Inr conns" by simp
      from Inr Some have "conn_distance c \<le> mx" by (simp add: connect_station_bound)
      with Cons.prems(2) have "\<forall>c \<in> set (acc @ [c]). conn_distance c \<le> mx" by simp
      from Cons.IH[OF r this] show ?thesis .
    qed
  qed
qed

lemma find_connections_bound:
  "find_connections geo mx G_car rn rc ss = Inr conns \<Longrightarrow> \<forall>c \<in> set conns. conn_distance c \<le> mx"
proof -
  assume "find_connections geo mx G_car rn rc ss = Inr conns"
  then have "connect_stations geo mx G_car rn rc ss [] = Inr conns"
    by (simp add: find_connections_def split: sum.splits if_splits)
  from connect_stations_bound[OF this] show ?thesis by simp
qed

text \<open>
  C9. Every record that \<^verbatim>\<open>find_connections\<close> returns has a distance within the budget
  the connector was given, whatever the index; and on a well-formed graph
  \<^verbatim>\<open>add_walking_edges\<close> returns, and every edge tagged \<^verbatim>\<open>mode=walk,
  edge_type=pt_transfer\<close> of the graph it leaves has a distance within its budget. With
  the default budget, that is \<^verbatim>\<open>MAX_WALKING_DISTANCE_M\<close>.
\<close>

theorem connectors_respect_budget:
  "(\<forall>conns. find_connections geo mx G_car road_nodes road_coords train_stations = Inr conns \<longrightarrow>
      (\<forall>c \<in> set conns. conn_distance c \<le> mx)) \<and>
   (wf_graph g \<longrightarrow>
      (\<exists>r g'. add_walking_edges geo mx g = Inr (r, g') \<and>
         (\<forall>u v d. edge_data g' u v = Some d \<and> is_walk_transfer d \<longrightarrow>
            (\<exists>x. d ''distance'' = Some (PNum x) \<and> x \<le> mx))))"
  using find_connections_bound[of geo mx G_car road_nodes road_coords train_stations]
    add_walking_edges_within_budget[of g geo mx]
  by blast

section \<open>The scenario with both road nodes in the index\<close>

lemma equator_geodesic_within:
  assumes "0 \<le> c" and "6378137 * (\<bar>a - b\<bar> * (31415928 / 10000000)) / 180 \<le> c"
  shows "(equator_geodesic (x, a) (y, b) \<le> c) = True"
  using equator_geodesic_upper[OF assms, of x y] by simp

lemma scenario_query:
  "query_ball_point [(0, 0), (0, 1 / 100)] (0, 1 / 2000) (MAX_WALKING_DISTANCE_M / 111320) = [0]"
  by (simp add: query_ball_point_def planar_within_def upt_rec power2_eq_square
      MAX_WALKING_DISTANCE_M_def)

lemma scenario_near: "(equator_geodesic (0, 1 / 2000) (0, 0) \<le> MAX_WALKING_DISTANCE_M) = True"
  by (rule equator_geodesic_within; simp add: MAX_WALKING_DISTANCE_M_def)

lemma scenario_find_connections:
  "find_connections equator_geodesic MAX_WALKING_DISTANCE_M scenario_car_graph
     [''R1'', ''R2''] [(0, 0), (0, 1 / 100)] scenario_stations =
   Inr [\<lparr>conn_station_id = ''S1'', conn_station_name = ''S1'',
         conn_station_lat = 0, conn_station_lon = 5 / 10000,
         conn_road_node = ''R1'', conn_road_lat = 0, conn_road_lon = 0,
         conn_distance = equator_geodesic (0, 5 / 10000) (0, 0),
         conn_walk_time = equator_geodesic (0, 5 / 10000) (0, 0) / WALKING_SPEED\<rparr>]"
  by (simp add: find_connections_def scenario_stations_def connect_station_def scenario_query
      scenario_near Let_def scenario_car_graph_def nodes_data_def)

lemma one_way_wf: "wf_graph one_way_train_graph"
  by (simp add: one_way_train_graph_def wf_graph_def)

text \<open>
  The budget bound at the scenario of the specification (with both road nodes in the
  index) and at the graph with the one-way train edge.
\<close>

theorem connectors_respect_budget_witness:
  "(\<exists>conns. find_connections equator_geodesic MAX_WALKING_DISTANCE_M scenario_car_graph
               [''R1'', ''R2''] [(0, 0), (0, 1 / 100)] scenario_stations = Inr conns \<and>
            conns \<noteq> [] \<and> (\<forall>c \<in> set conns. conn_distance c \<le> MAX_WALKING_DISTANCE_M)) \<and>
   wf_graph one_way_train_graph \<and>
   (\<exists>r g'. add_walking_edges equator_geodesic MAX_WALKING_DISTANCE_M one_way_train_graph =
              Inr (r, g') \<and>
      (\<forall>u v d. edge_data g' u v = Some d \<and> is_walk_transfer d \<longrightarrow>
         (\<exists>x. d ''distance'' = Some (PNum x) \<and> x \<le> MAX_WALKING_DISTANCE_M)))"
proof -
  note t = connectors_respect_budget[of equator_geodesic MAX_WALKING_DISTANCE_M scenario_car_graph
      "[''R1'', ''R2'']" "[(0, 0), (0, 1 / 100)]" scenario_stations one_way_train_graph]
  note t1 = conjunct1[OF t, rule_format, OF scenario_find_connections]
  note t2 = mp[OF conjunct2[OF t] one_way_wf]
  have 1: "\<exists>conns.
      find_connections equator_geodesic MAX_WALKING_DISTANCE_M scenario_car_graph
        [''R1'', ''R2''] [(0, 0), (0, 1 / 100)] scenario_stations = Inr conns \<and>
      conns \<noteq> [] \<and> (\<forall>c \<in> set conns. conn_distance c \<le> MAX_WALKING_DISTANCE_M)"
    by (rule exI, intro conjI, rule scenario_find_connections, simp, rule ballI, rule t1)
  show ?thesis by (rule conjI[OF 1 conjI[OF one_way_wf t2]])
qed

end
